theory Spec2Isabelle
  imports Complex_Main "HOL-Library.Stream"
begin

section \<open>Super Snake: the two game loops as state transformers\<close>

text \<open>
  The repository holds two variants of one Pygame program: \<^verbatim>\<open>super_snake.py\<close> (names
  ending in \<open>_v1\<close> below) and \<^verbatim>\<open>super_snake_V1.1.py\<close> (names ending in \<open>_v11\<close>).
  Each is a single \<^verbatim>\<open>main\<close> function around a frame loop.  The model keeps the
  local variables of \<^verbatim>\<open>main\<close> in a record and turns one pass of the loop body into a
  function from the frame's inputs and the record to an outcome.  Drawing, printing and
  sound playback write nothing that the loop reads back and are left out.
\<close>

subsection \<open>Configuration constants\<close>

type_synonym pos = "int \<times> int"

definition CELL_SIZE :: int where "CELL_SIZE = 20"
definition GRID_WIDTH :: int where "GRID_WIDTH = 30"
definition GRID_HEIGHT :: int where "GRID_HEIGHT = 30"
definition SHAKE_INTENSITY :: int where "SHAKE_INTENSITY = 100"

subsection \<open>Outcomes of a piece of code\<close>

text \<open>
  A piece of the program either returns a value, raises, or never returns (the food
  loop is \<^verbatim>\<open>while True\<close>).
\<close>

datatype exn = IndexError | SystemExit | ZeroDivisionError

datatype 'a outcome = Hang | Raise exn | Ret 'a

subsection \<open>The random module\<close>

text \<open>
  Python's generator is global mutable state, shared by every function of the module.
  Here it is a tape of natural numbers, one per call of \<^verbatim>\<open>random.randint\<close> or
  \<^verbatim>\<open>random.random\<close>.  \<open>randint a b\<close> reads the next number and reduces it into the
  closed interval from \<open>a\<close> to \<open>b\<close>, as the library guarantees for \<open>a \<le> b\<close>.
  \<open>random_unit\<close> is \<^verbatim>\<open>random.random()\<close>: it reads the next number and returns a multiple
  of \<open>2\<^sup>-\<^sup>5\<^sup>3\<close> that is at least 0 and less than 1.  \<^verbatim>\<open>random.uniform(a, b)\<close> is
  \<^verbatim>\<open>a + (b - a) * self.random()\<close> in floats; the rounding function \<open>fl\<close> is explained
  with the second file below.  Every sequence of results the library can give comes
  from some tape, so a statement about all tapes covers every run.
\<close>

type_synonym rng = "nat stream"

definition randint :: "int \<Rightarrow> int \<Rightarrow> rng \<Rightarrow> int \<times> rng" where
  "randint a b g = (a + int (shd g mod nat (b - a + 1)), stl g)"

definition random_unit :: "rng \<Rightarrow> real \<times> rng" where
  "random_unit g = (real (shd g mod 2 ^ 53) / 2 ^ 53, stl g)"

definition uniform :: "(real \<Rightarrow> real) \<Rightarrow> real \<Rightarrow> real \<Rightarrow> rng \<Rightarrow> real \<times> rng" where
  "uniform fl a b g =
     (let (r, g') = random_unit g
      in (fl (a + fl (fl (b - a) * r)), g'))"

subsection \<open>Food placement\<close>

text \<open>\<^verbatim>\<open>random_food_position(snake)\<close> of \<^verbatim>\<open>super_snake.py\<close>: rejection sampling without a bound.\<close>

partial_function (option) random_food_position :: "pos list \<Rightarrow> rng \<Rightarrow> (pos \<times> rng) option" where
  "random_food_position snake g =
     (let (x, g1) = randint 0 (GRID_WIDTH - 1) g;
          (y, g2) = randint 0 (GRID_HEIGHT - 1) g1
      in if (x, y) \<notin> set snake then Some ((x, y), g2)
         else random_food_position snake g2)"

text \<open>\<^verbatim>\<open>random_food(snake)\<close> of \<^verbatim>\<open>super_snake_V1.1.py\<close>: the same loop, building the pair at once.\<close>

partial_function (option) random_food :: "pos list \<Rightarrow> rng \<Rightarrow> (pos \<times> rng) option" where
  "random_food snake g =
     (let (px, g1) = randint 0 (GRID_WIDTH - 1) g;
          (py, g2) = randint 0 (GRID_HEIGHT - 1) g1;
          pos = (px, py)
      in if pos \<notin> set snake then Some (pos, g2)
         else random_food snake g2)"

text \<open>
  Vocabulary for statements about the two loops: the pair read by one iteration, the
  pair read by the \<open>k\<close>-th iteration, and the list of all cells of the grid.
\<close>

definition draw_pos :: "rng \<Rightarrow> pos \<times> rng" where
  "draw_pos g =
     (let (x, g1) = randint 0 (GRID_WIDTH - 1) g;
          (y, g2) = randint 0 (GRID_HEIGHT - 1) g1
      in ((x, y), g2))"

fun draws :: "nat \<Rightarrow> rng \<Rightarrow> pos \<times> rng" where
  "draws 0 g = draw_pos g"
| "draws (Suc k) g = draws k (snd (draw_pos g))"

definition in_grid :: "pos \<Rightarrow> bool" where
  "in_grid p = (0 \<le> fst p \<and> fst p < GRID_WIDTH \<and> 0 \<le> snd p \<and> snd p < GRID_HEIGHT)"

definition full_grid :: "pos list" where
  "full_grid = concat (map (\<lambda>x. map (\<lambda>y. (x, y)) [0 .. GRID_HEIGHT - 1]) [0 .. GRID_WIDTH - 1])"

subsection \<open>Input events\<close>

datatype key =
  K_UP | K_w | K_DOWN | K_s | K_LEFT | K_a | K_RIGHT | K_d
  | K_ESCAPE | K_SPACE | K_r | K_other

datatype event = QUIT | KEYDOWN key | OTHER

subsection \<open>The variables of the main loop\<close>

record game =
  snake :: "pos list"
  direction :: pos
  next_direction :: pos
  food :: pos
  score :: int
  game_over :: bool
  rand :: rng

record game_v1 = game +
  running :: bool

record game_v11 = game +
  shake_time :: real

subsection \<open>Sequencing outcomes\<close>

fun obind :: "'a outcome \<Rightarrow> ('a \<Rightarrow> 'b outcome) \<Rightarrow> 'b outcome" where
  "obind Hang f = Hang"
| "obind (Raise e) f = Raise e"
| "obind (Ret x) f = f x"

subsection \<open>The parts of a tick that both files share\<close>

text \<open>
  \<^verbatim>\<open>if (next_direction[0] * -1, next_direction[1] * -1) != direction: direction = next_direction\<close>
\<close>

definition commit_direction :: "'a game_scheme \<Rightarrow> 'a game_scheme" where
  "commit_direction s =
     (if (fst (next_direction s) * -1, snd (next_direction s) * -1) \<noteq> direction s
      then s\<lparr>direction := next_direction s\<rparr> else s)"

text \<open>
  \<^verbatim>\<open>head_x, head_y = snake[-1]; new_head = (head_x + direction[0], head_y + direction[1])\<close>,
  for a snake that is not empty.
\<close>

definition new_head :: "'a game_scheme \<Rightarrow> pos" where
  "new_head s =
     (let (head_x, head_y) = last (snake s)
      in (head_x + fst (direction s), head_y + snd (direction s)))"

subsection \<open>One tick of \<^verbatim>\<open>super_snake.py\<close>\<close>

text \<open>
  The body of \<^verbatim>\<open>if not game_over:\<close>.  \<^verbatim>\<open>snake[-1]\<close> raises on an empty list.  The wall
  test comes first and the membership test second (\<^verbatim>\<open>if\<close> and \<^verbatim>\<open>elif\<close>), both
  against the snake as it is before the move.
\<close>

definition collision_v1 :: "pos list \<Rightarrow> pos \<Rightarrow> bool" where
  "collision_v1 sn nh =
     (if \<not> (0 \<le> fst nh \<and> fst nh < GRID_WIDTH \<and> 0 \<le> snd nh \<and> snd nh < GRID_HEIGHT) then True
      else if nh \<in> set sn then True
      else False)"

definition update_v1 :: "'a game_scheme \<Rightarrow> 'a game_scheme outcome" where
  "update_v1 s =
     (let s1 = commit_direction s
      in if snake s1 = [] then Raise IndexError
         else
           let nh = new_head s1
           in if collision_v1 (snake s1) nh then Ret (s1\<lparr>game_over := True\<rparr>)
              else
                let s2 = s1\<lparr>snake := snake s1 @ [nh]\<rparr>
                in if nh = food s2
                   then (let s3 = s2\<lparr>score := score s2 + 1\<rparr>
                         in case random_food_position (snake s3) (rand s3) of
                              None \<Rightarrow> Hang
                            | Some (f, g) \<Rightarrow> Ret (s3\<lparr>food := f, rand := g\<rparr>))
                   else Ret (s2\<lparr>snake := tl (snake s2)\<rparr>))"

subsection \<open>One tick of \<^verbatim>\<open>super_snake_V1.1.py\<close>\<close>

text \<open>
  Floats are real numbers here, and every float operation and float literal goes
  through a rounding function \<open>fl\<close> that the definitions take as a parameter.  The
  membership test comes first in this file, the wall tests after it, in one disjunction.
\<close>

definition SHAKE_DURATION :: "(real \<Rightarrow> real) \<Rightarrow> real" where
  "SHAKE_DURATION fl = fl (3 / 10)"

definition collision_v11 :: "pos list \<Rightarrow> pos \<Rightarrow> bool" where
  "collision_v11 sn nh =
     (nh \<in> set sn \<or> \<not> (0 \<le> fst nh \<and> fst nh < GRID_WIDTH)
      \<or> \<not> (0 \<le> snd nh \<and> snd nh < GRID_HEIGHT))"

definition update_v11 :: "(real \<Rightarrow> real) \<Rightarrow> game_v11 \<Rightarrow> game_v11 outcome" where
  "update_v11 fl s =
     (let s1 = commit_direction s
      in if snake s1 = [] then Raise IndexError
         else
           let nh = new_head s1
           in if collision_v11 (snake s1) nh then Ret (s1\<lparr>game_over := True\<rparr>)
              else
                let s2 = s1\<lparr>snake := snake s1 @ [nh]\<rparr>
                in if nh = food s2
                   then (let s3 = s2\<lparr>score := score s2 + 1\<rparr>
                         in case random_food (snake s3) (rand s3) of
                              None \<Rightarrow> Hang
                            | Some (f, g) \<Rightarrow>
                                Ret (s3\<lparr>food := f, rand := g, shake_time := SHAKE_DURATION fl\<rparr>))
                   else Ret (s2\<lparr>snake := tl (snake s2)\<rparr>))"

subsection \<open>Game initialisation and the event loop of \<^verbatim>\<open>super_snake.py\<close>\<close>

text \<open>
  \<^verbatim>\<open>[(GRID_WIDTH // 2 + i, GRID_HEIGHT // 2) for i in range(3)][::-1]\<close>; the head is the
  last element.
\<close>

definition initial_snake_v1 :: "pos list" where
  "initial_snake_v1 = rev (map (\<lambda>i. (GRID_WIDTH div 2 + int i, GRID_HEIGHT div 2)) [0 ..< 3])"

definition init_v1 :: "rng \<Rightarrow> game_v1 outcome" where
  "init_v1 g =
     (case random_food_position initial_snake_v1 g of
        None \<Rightarrow> Hang
      | Some (f, g') \<Rightarrow>
          Ret \<lparr>snake = initial_snake_v1, direction = (-1, 0), next_direction = (-1, 0),
               food = f, score = 0, game_over = False, rand = g', running = True\<rparr>)"

text \<open>
  The \<^verbatim>\<open>for event in pygame.event.get()\<close> loop.  \<^verbatim>\<open>break\<close> leaves the rest of the batch
  unread.  The \<^verbatim>\<open>K_r\<close> branch repeats the initialisation in place.
\<close>

fun handle_events_v1 :: "event list \<Rightarrow> game_v1 \<Rightarrow> game_v1 outcome" where
  "handle_events_v1 [] s = Ret s"
| "handle_events_v1 (QUIT # es) s = Ret (s\<lparr>running := False\<rparr>)"
| "handle_events_v1 (OTHER # es) s = handle_events_v1 es s"
| "handle_events_v1 (KEYDOWN k # es) s =
     (if k \<in> {K_UP, K_w} then handle_events_v1 es (s\<lparr>next_direction := (0, -1)\<rparr>)
      else if k \<in> {K_DOWN, K_s} then handle_events_v1 es (s\<lparr>next_direction := (0, 1)\<rparr>)
      else if k \<in> {K_LEFT, K_a} then handle_events_v1 es (s\<lparr>next_direction := (-1, 0)\<rparr>)
      else if k \<in> {K_RIGHT, K_d} then handle_events_v1 es (s\<lparr>next_direction := (1, 0)\<rparr>)
      else if k = K_ESCAPE then Ret (s\<lparr>running := False\<rparr>)
      else if k = K_SPACE \<and> \<not> game_over s then handle_events_v1 es s
      else if k = K_r \<and> game_over s then
        (let s1 = s\<lparr>snake := initial_snake_v1, direction := (-1, 0)\<rparr>;
             s2 = s1\<lparr>next_direction := direction s1\<rparr>
         in case random_food_position (snake s2) (rand s2) of
              None \<Rightarrow> Hang
            | Some (f, g) \<Rightarrow>
                handle_events_v1 es (s2\<lparr>food := f, rand := g, score := 0, game_over := False\<rparr>))
      else handle_events_v1 es s)"

text \<open>One pass of the body of \<^verbatim>\<open>while running:\<close>, up to the drawing.\<close>

definition frame_v1 :: "event list \<Rightarrow> game_v1 \<Rightarrow> game_v1 outcome" where
  "frame_v1 evs s =
     obind (handle_events_v1 evs s) (\<lambda>s1.
       if \<not> running s1 then Ret s1
       else if \<not> game_over s1 then update_v1 s1
       else Ret s1)"

text \<open>The loop itself, run on the batches of events of successive frames.\<close>

fun main_loop_v1 :: "event list list \<Rightarrow> game_v1 \<Rightarrow> game_v1 outcome" where
  "main_loop_v1 [] s = Ret s"
| "main_loop_v1 (evs # rest) s =
     (if running s then obind (frame_v1 evs s) (main_loop_v1 rest) else Ret s)"

definition play_v1 :: "rng \<Rightarrow> event list list \<Rightarrow> game_v1 outcome" where
  "play_v1 g batches = obind (init_v1 g) (main_loop_v1 batches)"

subsection \<open>Game initialisation, the event loop and the shake of \<^verbatim>\<open>super_snake_V1.1.py\<close>\<close>

definition initial_snake_v11 :: "pos list" where
  "initial_snake_v11 = [(GRID_WIDTH div 2 - 1, GRID_HEIGHT div 2), (GRID_WIDTH div 2, GRID_HEIGHT div 2)]"

definition init_v11 :: "rng \<Rightarrow> game_v11 outcome" where
  "init_v11 g =
     (case random_food initial_snake_v11 g of
        None \<Rightarrow> Hang
      | Some (f, g') \<Rightarrow>
          Ret \<lparr>snake = initial_snake_v11, direction = (1, 0), next_direction = (1, 0),
               food = f, score = 0, game_over = False, rand = g', shake_time = 0\<rparr>)"

text \<open>
  A direction key is taken only when the committed direction is not its opposite.
  \<^verbatim>\<open>pygame.quit(); sys.exit()\<close> ends the process.
\<close>

fun handle_events_v11 :: "event list \<Rightarrow> game_v11 \<Rightarrow> game_v11 outcome" where
  "handle_events_v11 [] s = Ret s"
| "handle_events_v11 (QUIT # es) s = Raise SystemExit"
| "handle_events_v11 (OTHER # es) s = handle_events_v11 es s"
| "handle_events_v11 (KEYDOWN k # es) s =
     (if k \<in> {K_UP, K_w} then
        handle_events_v11 es (if direction s \<noteq> (0, 1) then s\<lparr>next_direction := (0, -1)\<rparr> else s)
      else if k \<in> {K_DOWN, K_s} then
        handle_events_v11 es (if direction s \<noteq> (0, -1) then s\<lparr>next_direction := (0, 1)\<rparr> else s)
      else if k \<in> {K_LEFT, K_a} then
        handle_events_v11 es (if direction s \<noteq> (1, 0) then s\<lparr>next_direction := (-1, 0)\<rparr> else s)
      else if k \<in> {K_RIGHT, K_d} then
        handle_events_v11 es (if direction s \<noteq> (-1, 0) then s\<lparr>next_direction := (1, 0)\<rparr> else s)
      else if k = K_r \<and> game_over s then
        (let s1 = s\<lparr>snake := initial_snake_v11, direction := (1, 0)\<rparr>;
             s2 = s1\<lparr>next_direction := direction s1\<rparr>
         in case random_food (snake s2) (rand s2) of
              None \<Rightarrow> Hang
            | Some (f, g) \<Rightarrow>
                handle_events_v11 es (s2\<lparr>food := f, rand := g, score := 0, game_over := False\<rparr>))
      else if k = K_ESCAPE then Raise SystemExit
      else handle_events_v11 es s)"

text \<open>Python's \<^verbatim>\<open>int(x)\<close> on a float: truncation towards zero.\<close>

definition py_int :: "real \<Rightarrow> int" where
  "py_int x = (if 0 \<le> x then \<lfloor>x\<rfloor> else \<lceil>x\<rceil>)"

text \<open>
  \<^verbatim>\<open>if shake_time > 0: shake_time = max(0.0, shake_time - dt)\<close>
\<close>

definition decay_shake :: "(real \<Rightarrow> real) \<Rightarrow> real \<Rightarrow> game_v11 \<Rightarrow> game_v11" where
  "decay_shake fl dt s =
     (if shake_time s > 0 then s\<lparr>shake_time := max 0 (fl (shake_time s - dt))\<rparr> else s)"

text \<open>
  The offsets of one frame, from the remaining shake time and the generator.  The two
  calls of \<^verbatim>\<open>random.uniform\<close> read the same generator as food placement and leave it
  two numbers further.  \<^verbatim>\<open>frac\<close> is computed and not used; its division raises on a zero
  divisor.
\<close>

definition shake_offset :: "(real \<Rightarrow> real) \<Rightarrow> real \<Rightarrow> rng \<Rightarrow> ((int \<times> int) \<times> rng) outcome" where
  "shake_offset fl st g =
     (if st > 0 then
        (if SHAKE_DURATION fl = 0 then Raise ZeroDivisionError
         else
           let frac = fl (st / SHAKE_DURATION fl);
               amp = fl (real_of_int SHAKE_INTENSITY * fl (12 / 100));
               (ux, g1) = uniform fl (- 1) 1 g;
               offset_x = py_int (fl (ux * amp));
               (uy, g2) = uniform fl 1 (- 1) g1;
               offset_y = py_int (fl (uy * amp))
           in Ret ((offset_x, offset_y), g2))
      else Ret ((0, 0), g))"

text \<open>
  What one frame reads from outside: the batch of events and the milliseconds that
  \<^verbatim>\<open>clock.tick(FPS)\<close> returns.
\<close>

record frame_input =
  events :: "event list"
  tick_ms :: int

text \<open>
  One pass of the body of \<^verbatim>\<open>while True:\<close>.  The result is the new variables and the
  pair \<^verbatim>\<open>(blit_x, blit_y)\<close> handed to \<^verbatim>\<open>screen.blit\<close>.
\<close>

definition frame_v11 :: "(real \<Rightarrow> real) \<Rightarrow> frame_input \<Rightarrow> game_v11 \<Rightarrow> (game_v11 \<times> int \<times> int) outcome" where
  "frame_v11 fl inp s =
     (let dt = fl (real_of_int (tick_ms inp) / 1000)
      in obind (handle_events_v11 (events inp) s) (\<lambda>s1.
         obind (if \<not> game_over s1 then update_v11 fl s1 else Ret s1) (\<lambda>s2.
           let s3 = decay_shake fl dt s2
           in obind (shake_offset fl (shake_time s3) (rand s3)) (\<lambda>(off, g).
                Ret (s3\<lparr>rand := g\<rparr>, off)))))"

fun main_loop_v11 :: "(real \<Rightarrow> real) \<Rightarrow> frame_input list \<Rightarrow> game_v11 \<Rightarrow> game_v11 outcome" where
  "main_loop_v11 fl [] s = Ret s"
| "main_loop_v11 fl (inp # rest) s =
     obind (frame_v11 fl inp s) (\<lambda>(s', off). main_loop_v11 fl rest s')"

definition play_v11 :: "(real \<Rightarrow> real) \<Rightarrow> rng \<Rightarrow> frame_input list \<Rightarrow> game_v11 outcome" where
  "play_v11 fl g inps = obind (init_v11 g) (main_loop_v11 fl inps)"

subsection \<open>Vocabulary and sample states for the statements below\<close>

text \<open>The cell the head is about to enter: the new head, computed after the direction is committed.\<close>

definition next_cell :: "'a game_scheme \<Rightarrow> pos" where
  "next_cell s = new_head (commit_direction s)"

text \<open>
  States of the two programs in which the next cell is the cell of the tail segment.
  Both arise in play from the initial state, after the snake has grown to four cells
  and turned three times.
\<close>

definition tail_chase_v1 :: game_v1 where
  "tail_chase_v1 =
     \<lparr>snake = [(15, 15), (14, 15), (14, 14), (15, 14)], direction = (1, 0),
      next_direction = (0, 1), food = (3, 7), score = 1, game_over = False,
      rand = cycle [14, 15, 3, 7], running = True\<rparr>"

definition tail_chase_v11 :: game_v11 where
  "tail_chase_v11 =
     \<lparr>snake = [(16, 15), (17, 15), (17, 14), (16, 14)], direction = (-1, 0),
      next_direction = (0, 1), food = (3, 7), score = 2, game_over = False,
      rand = cycle [16, 15, 17, 15, 3, 7], shake_time = 0\<rparr>"

text \<open>
  Frames of \<^verbatim>\<open>super_snake_V1.1.py\<close> with the given events.  \<open>idle\<close> has a full second
  on the clock, so that a shake started in the frame has decayed to 0 before the offsets
  are computed; \<open>brisk\<close> has 100 ms, so that a shake lasts into the next frames.
\<close>

definition idle :: "event list \<Rightarrow> frame_input" where
  "idle evs = \<lparr>events = evs, tick_ms = 1000\<rparr>"

definition brisk :: "event list \<Rightarrow> frame_input" where
  "brisk evs = \<lparr>events = evs, tick_ms = 100\<rparr>"

text \<open>A state about to eat, a state about to move on, and Scenario C of the specification.\<close>

definition first_bite_v1 :: game_v1 where
  "first_bite_v1 =
     \<lparr>snake = [(17, 15), (16, 15), (15, 15)], direction = (-1, 0), next_direction = (-1, 0),
      food = (14, 15), score = 0, game_over = False, rand = cycle [3, 7, 14, 15],
      running = True\<rparr>"

definition plain_move_v11 :: game_v11 where
  "plain_move_v11 =
     \<lparr>snake = [(14, 15), (15, 15)], direction = (1, 0), next_direction = (1, 0),
      food = (3, 7), score = 0, game_over = False, rand = cycle [16, 15, 17, 15, 3, 7],
      shake_time = 0\<rparr>"



text \<open>The invariant of the snake: not empty, every segment in the grid, no cell twice.\<close>

definition snake_ok :: "pos list \<Rightarrow> bool" where
  "snake_ok sn = (sn \<noteq> [] \<and> list_all in_grid sn \<and> distinct sn)"

text \<open>
  Two states with the same snake, food, score, mode and committed direction; they may
  differ in the pending direction, in the random tape and in the fields outside the grid
  logic.
\<close>

definition same_world :: "'a game_scheme \<Rightarrow> 'b game_scheme \<Rightarrow> bool" where
  "same_world s s' =
     (snake s' = snake s \<and> food s' = food s \<and> score s' = score s \<and> game_over s' = game_over s
      \<and> direction s' = direction s)"

text \<open>
  The vector of a direction key, the vectors of the direction keys of a batch in the
  order of arrival, and the opposite of a vector.
\<close>

fun key_vector :: "key \<Rightarrow> pos option" where
  "key_vector K_UP = Some (0, -1)"
| "key_vector K_w = Some (0, -1)"
| "key_vector K_DOWN = Some (0, 1)"
| "key_vector K_s = Some (0, 1)"
| "key_vector K_LEFT = Some (-1, 0)"
| "key_vector K_a = Some (-1, 0)"
| "key_vector K_RIGHT = Some (1, 0)"
| "key_vector K_d = Some (1, 0)"
| "key_vector k = None"

fun directional_keys :: "event list \<Rightarrow> pos list" where
  "directional_keys [] = []"
| "directional_keys (KEYDOWN k # es) =
     (case key_vector k of Some v \<Rightarrow> v # directional_keys es | None \<Rightarrow> directional_keys es)"
| "directional_keys (e # es) = directional_keys es"

definition opposite :: "pos \<Rightarrow> pos" where
  "opposite v = (- fst v, - snd v)"

text \<open>
  A state of \<^verbatim>\<open>super_snake_V1.1.py\<close> moving down; it is the state after the first frame
  when that frame brings the \<^verbatim>\<open>K_DOWN\<close> key.
\<close>

definition moving_down_v11 :: game_v11 where
  "moving_down_v11 =
     \<lparr>snake = [(15, 15), (15, 16)], direction = (0, 1), next_direction = (0, 1),
      food = (16, 15), score = 0, game_over = False, rand = cycle [17, 15, 3, 7, 16, 15],
      shake_time = 0\<rparr>"

text \<open>
  What the statements about the shake ask of the rounding function: on the range that
  the shake arithmetic stays in, the rounded value differs from the exact one by at most
  a thousandth of its magnitude plus a thousandth.  Rounding to the nearest double is far
  inside this bound, and so is the identity.
\<close>

definition float_rounding :: "(real \<Rightarrow> real) \<Rightarrow> bool" where
  "float_rounding fl = (\<forall>x. \<bar>x\<bar> \<le> 100 \<longrightarrow> \<bar>fl x - x\<bar> \<le> (\<bar>x\<bar> + 1) / 1000)"

text \<open>
  The bite that fills the grid.  The snake lies on a path through the grid that runs
  along the rows, every other row backwards; it covers all cells but \<open>(0, 29)\<close>, its
  head is at \<open>(1, 29)\<close> and moves left, and the food is on the one free cell.  The score
  is the number of cells grown since the start.
\<close>

definition serpentine_row :: "int \<Rightarrow> pos list" where
  "serpentine_row y =
     (if even y then map (\<lambda>x. (x, y)) [0 .. GRID_WIDTH - 1]
      else rev (map (\<lambda>x. (x, y)) [0 .. GRID_WIDTH - 1]))"

definition last_bite_snake :: "pos list" where
  "last_bite_snake =
     concat (map serpentine_row [0 .. GRID_HEIGHT - 2])
     @ rev (map (\<lambda>x. (x, GRID_HEIGHT - 1)) [1 .. GRID_WIDTH - 1])"

definition last_bite_v1 :: game_v1 where
  "last_bite_v1 =
     \<lparr>snake = last_bite_snake, direction = (-1, 0), next_direction = (-1, 0),
      food = (0, 29), score = 896, game_over = False, rand = cycle [0, 0], running = True\<rparr>"

definition last_bite_v11 :: game_v11 where
  "last_bite_v11 =
     \<lparr>snake = last_bite_snake, direction = (-1, 0), next_direction = (-1, 0),
      food = (0, 29), score = 897, game_over = False, rand = cycle [0, 0], shake_time = 0\<rparr>"

text \<open>A random tape on which two runs that differ only in the clock part ways.\<close>

definition shake_tape :: rng where
  "shake_tape = cycle [16, 15, 17, 15, 3, 7, 5, 9]"

section \<open>Properties\<close>

subsection \<open>Food placement: unfolding, first free draw, range\<close>

lemma random_food_position_unfold:
  "random_food_position sn g =
     (if fst (draw_pos g) \<notin> set sn then Some (draw_pos g)
      else random_food_position sn (snd (draw_pos g)))"
  by (subst random_food_position.simps) (simp add: draw_pos_def Let_def split: prod.splits)

lemma random_food_unfold:
  "random_food sn g =
     (if fst (draw_pos g) \<notin> set sn then Some (draw_pos g)
      else random_food sn (snd (draw_pos g)))"
  by (subst random_food.simps) (simp add: draw_pos_def Let_def split: prod.splits)

lemma random_food_position_first_free:
  "fst (draws k g) \<notin> set sn \<Longrightarrow> (\<forall>j<k. fst (draws j g) \<in> set sn) \<Longrightarrow>
   random_food_position sn g = Some (draws k g)"
proof (induction k arbitrary: g)
  case 0
  then show ?case by (subst random_food_position_unfold) simp
next
  case (Suc k)
  from Suc.prems(2) have occ: "fst (draw_pos g) \<in> set sn" by force
  have rest: "\<forall>j<k. fst (draws j (snd (draw_pos g))) \<in> set sn"
  proof (intro allI impI)
    fix j assume "j < k"
    then have "Suc j < Suc k" by simp
    with Suc.prems(2) have "fst (draws (Suc j) g) \<in> set sn" by blast
    then show "fst (draws j (snd (draw_pos g))) \<in> set sn" by simp
  qed
  from Suc.prems(1) have "fst (draws k (snd (draw_pos g))) \<notin> set sn" by simp
  from Suc.IH [OF this rest] occ show ?case
    by (subst random_food_position_unfold) simp
qed

lemma random_food_position_SomeD:
  assumes "random_food_position sn g = Some r"
  shows "\<exists>k. r = draws k g \<and> fst (draws k g) \<notin> set sn \<and> (\<forall>j<k. fst (draws j g) \<in> set sn)"
proof (rule random_food_position.raw_induct
    [where P = "\<lambda>sn g r. \<exists>k. r = draws k g \<and> fst (draws k g) \<notin> set sn
                  \<and> (\<forall>j<k. fst (draws j g) \<in> set sn)", OF _ assms])
  fix f :: "pos list \<Rightarrow> rng \<Rightarrow> (pos \<times> rng) option" and sn g r
  assume IH: "\<And>sn g r. f sn g = Some r \<Longrightarrow>
    \<exists>k. r = draws k g \<and> fst (draws k g) \<notin> set sn \<and> (\<forall>j<k. fst (draws j g) \<in> set sn)"
  assume eq: "(let (x, g1) = randint 0 (GRID_WIDTH - 1) g;
                   (y, g2) = randint 0 (GRID_HEIGHT - 1) g1
               in if (x, y) \<notin> set sn then Some ((x, y), g2) else f sn g2) = Some r"
  show "\<exists>k. r = draws k g \<and> fst (draws k g) \<notin> set sn \<and> (\<forall>j<k. fst (draws j g) \<in> set sn)"
  proof (cases "fst (draw_pos g) \<notin> set sn")
    case True
    with eq have "r = draws 0 g"
      by (auto simp: draw_pos_def Let_def split: prod.splits)
    with True show ?thesis by (intro exI [of _ 0]) simp
  next
    case False
    with eq have "f sn (snd (draw_pos g)) = Some r"
      by (auto simp: draw_pos_def Let_def split: prod.splits)
    from IH [OF this] obtain k where k: "r = draws k (snd (draw_pos g))"
      "fst (draws k (snd (draw_pos g))) \<notin> set sn"
      "\<forall>j<k. fst (draws j (snd (draw_pos g))) \<in> set sn" by blast
    have "\<forall>j<Suc k. fst (draws j g) \<in> set sn"
    proof (intro allI impI)
      fix j assume "j < Suc k"
      then show "fst (draws j g) \<in> set sn" using False k(3) by (cases j) auto
    qed
    with k(1,2) show ?thesis by (intro exI [of _ "Suc k"]) simp
  qed
qed

lemma draw_pos_in_grid: "in_grid (fst (draw_pos g))"
  by (simp add: draw_pos_def randint_def in_grid_def GRID_WIDTH_def GRID_HEIGHT_def Let_def)

lemma draws_in_grid: "in_grid (fst (draws k g))"
  by (induction k arbitrary: g) (simp_all add: draw_pos_in_grid)

lemma set_full_grid: "set full_grid = {p. in_grid p}"
  by (auto simp: full_grid_def in_grid_def)

lemma draw_pos_cycle:
  "draw_pos (cycle (a # b # r)) = ((int (a mod 30), int (b mod 30)), cycle (r @ [a, b]))"
  by (simp add: draw_pos_def randint_def GRID_WIDTH_def GRID_HEIGHT_def)

lemma random_food_position_hit:
  "fst (draw_pos g) \<notin> set sn \<Longrightarrow> random_food_position sn g = Some (draw_pos g)"
  by (subst random_food_position_unfold) simp

lemma random_food_position_miss:
  "fst (draw_pos g) \<in> set sn \<Longrightarrow> random_food_position sn g = random_food_position sn (snd (draw_pos g))"
  by (subst random_food_position_unfold) simp

lemma random_food_imp_position:
  assumes "random_food sn g = Some r"
  shows "random_food_position sn g = Some r"
proof (rule random_food.raw_induct
    [where P = "\<lambda>sn g r. random_food_position sn g = Some r", OF _ assms])
  fix f :: "pos list \<Rightarrow> rng \<Rightarrow> (pos \<times> rng) option" and sn g r
  assume IH: "\<And>sn g r. f sn g = Some r \<Longrightarrow> random_food_position sn g = Some r"
  assume eq: "(let (px, g1) = randint 0 (GRID_WIDTH - 1) g;
                   (py, g2) = randint 0 (GRID_HEIGHT - 1) g1;
                   pos = (px, py)
               in if pos \<notin> set sn then Some (pos, g2) else f sn g2) = Some r"
  show "random_food_position sn g = Some r"
  proof (cases "fst (draw_pos g) \<notin> set sn")
    case True
    with eq have "r = draw_pos g"
      by (auto simp: draw_pos_def Let_def split: prod.splits)
    with True show ?thesis by (simp add: random_food_position_hit)
  next
    case False
    with eq have "f sn (snd (draw_pos g)) = Some r"
      by (auto simp: draw_pos_def Let_def split: prod.splits)
    from IH [OF this] False show ?thesis by (simp add: random_food_position_miss)
  qed
qed

lemma random_food_position_imp_food:
  assumes "random_food_position sn g = Some r"
  shows "random_food sn g = Some r"
proof (rule random_food_position.raw_induct
    [where P = "\<lambda>sn g r. random_food sn g = Some r", OF _ assms])
  fix f :: "pos list \<Rightarrow> rng \<Rightarrow> (pos \<times> rng) option" and sn g r
  assume IH: "\<And>sn g r. f sn g = Some r \<Longrightarrow> random_food sn g = Some r"
  assume eq: "(let (x, g1) = randint 0 (GRID_WIDTH - 1) g;
                   (y, g2) = randint 0 (GRID_HEIGHT - 1) g1
               in if (x, y) \<notin> set sn then Some ((x, y), g2) else f sn g2) = Some r"
  show "random_food sn g = Some r"
  proof (cases "fst (draw_pos g) \<notin> set sn")
    case True
    with eq have "r = draw_pos g"
      by (auto simp: draw_pos_def Let_def split: prod.splits)
    with True show ?thesis by (subst random_food_unfold) simp
  next
    case False
    with eq have "f sn (snd (draw_pos g)) = Some r"
      by (auto simp: draw_pos_def Let_def split: prod.splits)
    from IH [OF this] False show ?thesis by (subst random_food_unfold) simp
  qed
qed

lemma random_food_eq: "random_food sn g = random_food_position sn g"
proof (cases "random_food sn g")
  case None
  then show ?thesis
    by (cases "random_food_position sn g") (auto dest: random_food_position_imp_food)
next
  case (Some r)
  then show ?thesis by (simp add: random_food_imp_position)
qed

lemma random_food_position_free:
  "random_food_position sn g = Some r \<Longrightarrow> fst r \<notin> set sn \<and> in_grid (fst r)"
  by (auto dest!: random_food_position_SomeD simp: draws_in_grid)

lemma random_food_position_full:
  "\<forall>p. in_grid p \<longrightarrow> p \<in> set sn \<Longrightarrow> random_food_position sn g = None"
  by (cases "random_food_position sn g") (auto dest: random_food_position_free)

lemma random_food_position_no_free:
  "\<forall>k. fst (draws k g) \<in> set sn \<Longrightarrow> random_food_position sn g = None"
  by (cases "random_food_position sn g") (auto dest!: random_food_position_SomeD)

lemma random_food_position_returns:
  "fst (draws k g) \<notin> set sn \<Longrightarrow> \<exists>r. random_food_position sn g = Some r"
proof (induction k arbitrary: g)
  case 0
  then show ?case by (simp add: random_food_position_hit)
next
  case (Suc k)
  then show ?case
    by (cases "fst (draw_pos g) \<in> set sn")
      (simp_all add: random_food_position_hit random_food_position_miss)
qed

lemma initial_snake_v1_eq: "initial_snake_v1 = [(17, 15), (16, 15), (15, 15)]"
  by (simp add: initial_snake_v1_def GRID_WIDTH_def GRID_HEIGHT_def upt_conv_Cons)

lemma initial_snake_v11_eq: "initial_snake_v11 = [(14, 15), (15, 15)]"
  by (simp add: initial_snake_v11_def GRID_WIDTH_def GRID_HEIGHT_def)

text \<open>
  Claim C7, as amended.  Food placement is rejection sampling: it returns exactly the
  first position read from the random tape that is not occupied by the snake, and that
  position lies in the grid and outside the snake; it returns nothing when no position
  read is free.  The two files' loops agree.  When the snake occupies every cell of the
  grid the loop never returns, whatever the tape.
\<close>

theorem food_placement_first_free_draw:
  "(random_food_position sn g = Some r \<longleftrightarrow>
      (\<exists>k. r = draws k g \<and> fst r \<notin> set sn \<and> (\<forall>j<k. fst (draws j g) \<in> set sn)))
   \<and> random_food sn g = random_food_position sn g
   \<and> (random_food_position sn g = Some r \<longrightarrow> in_grid (fst r) \<and> fst r \<notin> set sn)
   \<and> ((\<forall>p. in_grid p \<longrightarrow> p \<in> set sn) \<longrightarrow> random_food_position sn g = None)"
proof (intro conjI)
  show "random_food_position sn g = Some r \<longleftrightarrow>
      (\<exists>k. r = draws k g \<and> fst r \<notin> set sn \<and> (\<forall>j<k. fst (draws j g) \<in> set sn))"
    by (auto dest: random_food_position_SomeD simp: random_food_position_first_free)
  show "random_food sn g = random_food_position sn g" by (rule random_food_eq)
  show "random_food_position sn g = Some r \<longrightarrow> in_grid (fst r) \<and> fst r \<notin> set sn"
    by (simp add: random_food_position_free)
  show "(\<forall>p. in_grid p \<longrightarrow> p \<in> set sn) \<longrightarrow> random_food_position sn g = None"
    by (simp add: random_food_position_full)
qed

theorem food_placement_first_free_draw_witness:
  "random_food_position [(0, 0)] (cycle [0, 0, 3, 4]) = Some ((3, 4), cycle [0, 0, 3, 4])
   \<and> random_food [(0, 0)] (cycle [0, 0, 3, 4]) = Some ((3, 4), cycle [0, 0, 3, 4])
   \<and> in_grid (3, 4) \<and> (3, 4) \<notin> set [(0::int, 0::int)]
   \<and> random_food_position full_grid (cycle [7, 8]) = None"
proof -
  have run: "random_food_position [(0, 0)] (cycle [0, 0, 3, 4]) = Some ((3, 4), cycle [0, 0, 3, 4])"
    by (simp add: draw_pos_cycle random_food_position_hit random_food_position_miss)
  have full: "\<forall>p. in_grid p \<longrightarrow> p \<in> set full_grid" by (simp add: set_full_grid)
  from food_placement_first_free_draw [of "[(0, 0)]" "cycle [0, 0, 3, 4]" "((3, 4), cycle [0, 0, 3, 4])"]
    food_placement_first_free_draw [of full_grid "cycle [7, 8]"] run full
  show ?thesis by simp
qed

text \<open>
  Claim C7 as stated says that food placement does not loop forever when the snake
  occupies every cell.  With the snake on all 900 cells the loop of either file never
  returns.
\<close>

theorem food_placement_full_grid_counterexample:
  "random_food_position full_grid (cycle [0, 0]) = None
   \<and> random_food full_grid (cycle [0, 0]) = None
   \<and> length full_grid = 900 \<and> distinct full_grid"
proof -
  have "\<forall>p. in_grid p \<longrightarrow> p \<in> set full_grid" by (simp add: set_full_grid)
  then have "random_food_position full_grid (cycle [0, 0]) = None"
    by (rule random_food_position_full)
  moreover have "length full_grid = 900"
    by (simp add: full_grid_def GRID_WIDTH_def GRID_HEIGHT_def length_concat comp_def sum_list_triv)
  moreover have "distinct full_grid"
    unfolding full_grid_def
  proof (rule distinct_concat)
    have ne: "[0 .. GRID_HEIGHT - 1] = 0 # [1 .. GRID_HEIGHT - 1]"
      by (simp add: GRID_HEIGHT_def upto_rec1)
    show "distinct (map (\<lambda>x. map (Pair x) [0 .. GRID_HEIGHT - 1]) [0 .. GRID_WIDTH - 1])"
      by (simp add: distinct_map inj_on_def ne)
  qed (auto simp: distinct_map inj_on_def)
  ultimately show ?thesis by (simp add: random_food_eq)
qed

subsection \<open>The two collision tests\<close>

text \<open>
  Claim C9.  The collision test of \<^verbatim>\<open>super_snake.py\<close> (walls first, then membership) and
  the one of \<^verbatim>\<open>super_snake_V1.1.py\<close> (membership first, then walls) give the same flag for
  every snake and every new head, whether or not the snake lies in the grid.
\<close>

theorem collision_tests_agree: "collision_v1 sn nh = collision_v11 sn nh"
  by (auto simp: collision_v1_def collision_v11_def)

subsection \<open>One tick: the three branches\<close>

lemma commit_direction_fields [simp]:
  "snake (commit_direction s) = snake s"
  "food (commit_direction s) = food s"
  "score (commit_direction s) = score s"
  "game_over (commit_direction s) = game_over s"
  "rand (commit_direction s) = rand s"
  "next_direction (commit_direction s) = next_direction s"
  "game.more (commit_direction s) = game.more s"
  by (simp_all add: commit_direction_def)

lemma commit_direction_v1 [simp]: "running (commit_direction s) = running s"
  by (simp add: commit_direction_def)

lemma commit_direction_v11 [simp]: "shake_time (commit_direction s) = shake_time s"
  by (simp add: commit_direction_def)


lemma commit_direction_other:
  "next_direction s \<noteq> (- fst (direction s), - snd (direction s)) \<Longrightarrow>
   commit_direction s = s\<lparr>direction := next_direction s\<rparr>"
  by (cases "next_direction s"; cases "direction s") (auto simp: commit_direction_def)

lemma collision_v1_iff: "collision_v1 sn nh \<longleftrightarrow> \<not> in_grid nh \<or> nh \<in> set sn"
  by (auto simp: collision_v1_def in_grid_def)

lemma collision_v11_iff: "collision_v11 sn nh \<longleftrightarrow> \<not> in_grid nh \<or> nh \<in> set sn"
  by (auto simp: collision_v11_def in_grid_def)

lemma update_v1_collision:
  "snake s \<noteq> [] \<Longrightarrow> collision_v1 (snake s) (new_head (commit_direction s)) \<Longrightarrow>
   update_v1 s = Ret ((commit_direction s)\<lparr>game_over := True\<rparr>)"
  by (simp add: update_v1_def Let_def)

lemma update_v1_move:
  "snake s \<noteq> [] \<Longrightarrow> \<not> collision_v1 (snake s) (new_head (commit_direction s)) \<Longrightarrow>
   new_head (commit_direction s) \<noteq> food s \<Longrightarrow>
   update_v1 s = Ret ((commit_direction s)\<lparr>snake := tl (snake s) @ [new_head (commit_direction s)]\<rparr>)"
  by (simp add: update_v1_def Let_def)

lemma update_v1_eat:
  "snake s \<noteq> [] \<Longrightarrow> \<not> collision_v1 (snake s) (new_head (commit_direction s)) \<Longrightarrow>
   new_head (commit_direction s) = food s \<Longrightarrow>
   update_v1 s =
     (case random_food_position (snake s @ [food s]) (rand s) of
        None \<Rightarrow> Hang
      | Some (f, g) \<Rightarrow>
          Ret ((commit_direction s)\<lparr>snake := snake s @ [food s], score := score s + 1,
                food := f, rand := g\<rparr>))"
  by (simp add: update_v1_def Let_def split: option.splits)

lemma update_v11_collision:
  "snake s \<noteq> [] \<Longrightarrow> collision_v11 (snake s) (new_head (commit_direction s)) \<Longrightarrow>
   update_v11 fl s = Ret ((commit_direction s)\<lparr>game_over := True\<rparr>)"
  by (simp add: update_v11_def Let_def)

lemma update_v11_move:
  "snake s \<noteq> [] \<Longrightarrow> \<not> collision_v11 (snake s) (new_head (commit_direction s)) \<Longrightarrow>
   new_head (commit_direction s) \<noteq> food s \<Longrightarrow>
   update_v11 fl s = Ret ((commit_direction s)\<lparr>snake := tl (snake s) @ [new_head (commit_direction s)]\<rparr>)"
  by (simp add: update_v11_def Let_def)

lemma update_v11_eat:
  "snake s \<noteq> [] \<Longrightarrow> \<not> collision_v11 (snake s) (new_head (commit_direction s)) \<Longrightarrow>
   new_head (commit_direction s) = food s \<Longrightarrow>
   update_v11 fl s =
     (case random_food (snake s @ [food s]) (rand s) of
        None \<Rightarrow> Hang
      | Some (f, g) \<Rightarrow>
          Ret ((commit_direction s)\<lparr>snake := snake s @ [food s], score := score s + 1,
                food := f, rand := g, shake_time := SHAKE_DURATION fl\<rparr>))"
  by (simp add: update_v11_def Let_def split: option.splits)

lemma random_food_hit:
  "fst (draw_pos g) \<notin> set sn \<Longrightarrow> random_food sn g = Some (draw_pos g)"
  by (simp add: random_food_eq random_food_position_hit)

lemma random_food_miss:
  "fst (draw_pos g) \<in> set sn \<Longrightarrow> random_food sn g = random_food sn (snd (draw_pos g))"
  by (simp add: random_food_eq random_food_position_miss)

lemmas run_v1 = play_v1_def frame_v1_def update_v1_def commit_direction_def new_head_def
  collision_v1_def init_v1_def initial_snake_v1_eq draw_pos_cycle random_food_position_hit
  random_food_position_miss GRID_WIDTH_def GRID_HEIGHT_def

lemmas run_v11 = play_v11_def frame_v11_def update_v11_def commit_direction_def new_head_def
  collision_v11_def init_v11_def initial_snake_v11_eq draw_pos_cycle random_food_hit
  random_food_miss GRID_WIDTH_def GRID_HEIGHT_def decay_shake_def shake_offset_def
  SHAKE_DURATION_def SHAKE_INTENSITY_def py_int_def idle_def brisk_def uniform_def
  random_unit_def


lemma hd_in_snake: "sn \<noteq> [] \<Longrightarrow> hd sn \<in> set sn"
  by simp



theorem collision_tests_agree_witness:
  "collision_v1 [(28, 15), (29, 15)] (30, 15) \<and> collision_v11 [(28, 15), (29, 15)] (30, 15)
   \<and> \<not> collision_v1 [(14, 15), (15, 15)] (16, 15) \<and> \<not> collision_v11 [(14, 15), (15, 15)] (16, 15)"
  using collision_tests_agree [of "[(28, 15), (29, 15)]" "(30, 15)"]
    collision_tests_agree [of "[(14, 15), (15, 15)]" "(16, 15)"]
  by (simp add: collision_v11_def GRID_WIDTH_def GRID_HEIGHT_def)

text \<open>
  Claim C1, as amended.  Both programs test the new head against the whole snake as it
  is before the move, tail segment included.  So a tick that moves the head into the
  cell of the tail segment is a collision like any other: the mode becomes game over,
  and the snake, the food and the score stay as they are.
\<close>

theorem tail_cell_is_collision:
  "(snake s \<noteq> [] \<and> next_cell s = hd (snake s) \<longrightarrow>
      update_v1 s = Ret ((commit_direction s)\<lparr>game_over := True\<rparr>))
   \<and> (snake t \<noteq> [] \<and> next_cell t = hd (snake t) \<longrightarrow>
      update_v11 fl t = Ret ((commit_direction t)\<lparr>game_over := True\<rparr>))"
  by (simp add: next_cell_def update_v1_collision update_v11_collision
      collision_v1_iff collision_v11_iff)

theorem tail_cell_is_collision_witness:
  "update_v1 tail_chase_v1 = Ret (tail_chase_v1\<lparr>direction := (0, 1), game_over := True\<rparr>)
   \<and> update_v11 (\<lambda>x. x) tail_chase_v11 = Ret (tail_chase_v11\<lparr>direction := (0, 1), game_over := True\<rparr>)"
proof -
  have a: "snake tail_chase_v1 \<noteq> [] \<and> next_cell tail_chase_v1 = hd (snake tail_chase_v1)"
    by (simp add: tail_chase_v1_def next_cell_def new_head_def commit_direction_def)
  have b: "snake tail_chase_v11 \<noteq> [] \<and> next_cell tail_chase_v11 = hd (snake tail_chase_v11)"
    by (simp add: tail_chase_v11_def next_cell_def new_head_def commit_direction_def)
  have c: "commit_direction tail_chase_v1 = tail_chase_v1\<lparr>direction := (0, 1)\<rparr>"
    by (simp add: tail_chase_v1_def commit_direction_def)
  have d: "commit_direction tail_chase_v11 = tail_chase_v11\<lparr>direction := (0, 1)\<rparr>"
    by (simp add: tail_chase_v11_def commit_direction_def)
  from tail_cell_is_collision [of tail_chase_v1 tail_chase_v11 "\<lambda>x. x"] a b
  show ?thesis by (simp add: c d)
qed

text \<open>
  Claim C1 as stated says that on a tick that does not eat, moving into the cell the tail
  is about to leave succeeds.  In both programs a snake of four cells that turns in a
  square onto its own tail ends the game; the food is elsewhere, and the states are
  reached by play from the initial state.
\<close>

theorem tail_cell_counterexample:
  "\<not> game_over tail_chase_v1
   \<and> next_cell tail_chase_v1 = hd (snake tail_chase_v1)
   \<and> next_cell tail_chase_v1 \<noteq> food tail_chase_v1
   \<and> update_v1 tail_chase_v1 = Ret (tail_chase_v1\<lparr>direction := (0, 1), game_over := True\<rparr>)
   \<and> play_v1 (cycle [14, 15, 3, 7]) [[], [KEYDOWN K_UP], [KEYDOWN K_RIGHT], [KEYDOWN K_DOWN]]
       = Ret (tail_chase_v1\<lparr>direction := (0, 1), game_over := True\<rparr>)
   \<and> \<not> game_over tail_chase_v11
   \<and> next_cell tail_chase_v11 = hd (snake tail_chase_v11)
   \<and> next_cell tail_chase_v11 \<noteq> food tail_chase_v11
   \<and> update_v11 (\<lambda>x. x) tail_chase_v11 = Ret (tail_chase_v11\<lparr>direction := (0, 1), game_over := True\<rparr>)
   \<and> play_v11 (\<lambda>x. x) (cycle [16, 15, 17, 15, 3, 7])
        [idle [], idle [], idle [KEYDOWN K_UP], idle [KEYDOWN K_LEFT], idle [KEYDOWN K_DOWN]]
       = Ret (tail_chase_v11\<lparr>direction := (0, 1), game_over := True\<rparr>)"
proof (intro conjI)
  show "play_v1 (cycle [14, 15, 3, 7]) [[], [KEYDOWN K_UP], [KEYDOWN K_RIGHT], [KEYDOWN K_DOWN]]
       = Ret (tail_chase_v1\<lparr>direction := (0, 1), game_over := True\<rparr>)"
    by (simp add: run_v1 tail_chase_v1_def)
  show "play_v11 (\<lambda>x. x) (cycle [16, 15, 17, 15, 3, 7])
        [idle [], idle [], idle [KEYDOWN K_UP], idle [KEYDOWN K_LEFT], idle [KEYDOWN K_DOWN]]
       = Ret (tail_chase_v11\<lparr>direction := (0, 1), game_over := True\<rparr>)"
    by (simp add: run_v11 tail_chase_v11_def)
qed (simp_all add: tail_chase_v1_def tail_chase_v11_def next_cell_def run_v1 run_v11)

text \<open>
  Claim C2, as amended.  On a tick without collision whose new head is not the food
  cell, the tick returns with the new head appended and the tail removed: the length,
  the score and the food are unchanged.  On a tick without collision whose new head is
  the food cell, the tick returns when the random tape holds a draw outside the grown
  snake, and then the snake has grown by exactly the new head, the score by exactly
  one, and the new food is a grid cell outside the grown snake.  When the tape holds no
  such draw, and so whenever the grown snake fills the grid, the tick never returns.  It
  never raises.
\<close>

theorem tick_without_collision:
  "(snake s \<noteq> [] \<and> \<not> collision_v1 (snake s) (next_cell s) \<longrightarrow>
      (next_cell s \<noteq> food s \<longrightarrow>
         (\<exists>s'. update_v1 s = Ret s' \<and> snake s' = tl (snake s) @ [next_cell s]
            \<and> length (snake s') = length (snake s) \<and> score s' = score s \<and> food s' = food s))
    \<and> (next_cell s = food s \<longrightarrow>
         (\<forall>s'. update_v1 s = Ret s' \<longrightarrow>
            snake s' = snake s @ [next_cell s] \<and> length (snake s') = length (snake s) + 1
            \<and> score s' = score s + 1 \<and> food s' \<notin> set (snake s') \<and> in_grid (food s'))
         \<and> ((\<exists>k. fst (draws k (rand s)) \<notin> set (snake s @ [next_cell s])) \<longrightarrow>
              (\<exists>s'. update_v1 s = Ret s'))
         \<and> ((\<forall>k. fst (draws k (rand s)) \<in> set (snake s @ [next_cell s])) \<longrightarrow>
              update_v1 s = Hang)
         \<and> ((\<forall>p. in_grid p \<longrightarrow> p \<in> set (snake s @ [next_cell s])) \<longrightarrow>
              update_v1 s = Hang)
         \<and> (\<forall>e. update_v1 s \<noteq> Raise e)))
   \<and> (snake t \<noteq> [] \<and> \<not> collision_v11 (snake t) (next_cell t) \<longrightarrow>
      (next_cell t \<noteq> food t \<longrightarrow>
         (\<exists>t'. update_v11 fl t = Ret t' \<and> snake t' = tl (snake t) @ [next_cell t]
            \<and> length (snake t') = length (snake t) \<and> score t' = score t \<and> food t' = food t))
    \<and> (next_cell t = food t \<longrightarrow>
         (\<forall>t'. update_v11 fl t = Ret t' \<longrightarrow>
            snake t' = snake t @ [next_cell t] \<and> length (snake t') = length (snake t) + 1
            \<and> score t' = score t + 1 \<and> food t' \<notin> set (snake t') \<and> in_grid (food t'))
         \<and> ((\<exists>k. fst (draws k (rand t)) \<notin> set (snake t @ [next_cell t])) \<longrightarrow>
              (\<exists>t'. update_v11 fl t = Ret t'))
         \<and> ((\<forall>k. fst (draws k (rand t)) \<in> set (snake t @ [next_cell t])) \<longrightarrow>
              update_v11 fl t = Hang)
         \<and> ((\<forall>p. in_grid p \<longrightarrow> p \<in> set (snake t @ [next_cell t])) \<longrightarrow>
              update_v11 fl t = Hang)
         \<and> (\<forall>e. update_v11 fl t \<noteq> Raise e)))"
proof (intro conjI impI)
  assume a: "snake s \<noteq> [] \<and> \<not> collision_v1 (snake s) (next_cell s)"
  { assume "next_cell s \<noteq> food s"
    with a show "\<exists>s'. update_v1 s = Ret s' \<and> snake s' = tl (snake s) @ [next_cell s]
            \<and> length (snake s') = length (snake s) \<and> score s' = score s \<and> food s' = food s"
      by (simp add: next_cell_def update_v1_move) }
  { assume e: "next_cell s = food s"
    from a e have u: "update_v1 s =
       (case random_food_position (snake s @ [food s]) (rand s) of None \<Rightarrow> Hang
        | Some (f, g) \<Rightarrow> Ret ((commit_direction s)\<lparr>snake := snake s @ [food s],
             score := score s + 1, food := f, rand := g\<rparr>))"
      by (simp add: next_cell_def update_v1_eat)
    show "\<forall>s'. update_v1 s = Ret s' \<longrightarrow>
            snake s' = snake s @ [next_cell s] \<and> length (snake s') = length (snake s) + 1
            \<and> score s' = score s + 1 \<and> food s' \<notin> set (snake s') \<and> in_grid (food s')"
      using e by (auto simp: u split: option.splits dest: random_food_position_free)
    show "\<forall>e. update_v1 s \<noteq> Raise e"
      by (auto simp: u split: option.splits)
    { assume "\<exists>k. fst (draws k (rand s)) \<notin> set (snake s @ [next_cell s])"
      then obtain r where "random_food_position (snake s @ [food s]) (rand s) = Some r"
        using e random_food_position_returns by metis
      then show "\<exists>s'. update_v1 s = Ret s'"
        by (cases r) (simp add: u) }
    { assume "\<forall>k. fst (draws k (rand s)) \<in> set (snake s @ [next_cell s])"
      with e have "random_food_position (snake s @ [food s]) (rand s) = None"
        by (intro random_food_position_no_free) simp
      then show "update_v1 s = Hang" by (simp add: u) }
    { assume "\<forall>p. in_grid p \<longrightarrow> p \<in> set (snake s @ [next_cell s])"
      with e have "random_food_position (snake s @ [food s]) (rand s) = None"
        by (intro random_food_position_full) simp
      then show "update_v1 s = Hang" by (simp add: u) } }
next
  assume a: "snake t \<noteq> [] \<and> \<not> collision_v11 (snake t) (next_cell t)"
  { assume "next_cell t \<noteq> food t"
    with a show "\<exists>t'. update_v11 fl t = Ret t' \<and> snake t' = tl (snake t) @ [next_cell t]
            \<and> length (snake t') = length (snake t) \<and> score t' = score t \<and> food t' = food t"
      by (simp add: next_cell_def update_v11_move) }
  { assume e: "next_cell t = food t"
    from a e have u: "update_v11 fl t =
       (case random_food_position (snake t @ [food t]) (rand t) of None \<Rightarrow> Hang
        | Some (f, g) \<Rightarrow> Ret ((commit_direction t)\<lparr>snake := snake t @ [food t],
             score := score t + 1, food := f, rand := g, shake_time := SHAKE_DURATION fl\<rparr>))"
      by (simp add: next_cell_def update_v11_eat random_food_eq)
    show "\<forall>t'. update_v11 fl t = Ret t' \<longrightarrow>
            snake t' = snake t @ [next_cell t] \<and> length (snake t') = length (snake t) + 1
            \<and> score t' = score t + 1 \<and> food t' \<notin> set (snake t') \<and> in_grid (food t')"
      using e by (auto simp: u split: option.splits dest: random_food_position_free)
    show "\<forall>e. update_v11 fl t \<noteq> Raise e"
      by (auto simp: u split: option.splits)
    { assume "\<exists>k. fst (draws k (rand t)) \<notin> set (snake t @ [next_cell t])"
      then obtain r where "random_food_position (snake t @ [food t]) (rand t) = Some r"
        using e random_food_position_returns by metis
      then show "\<exists>t'. update_v11 fl t = Ret t'"
        by (cases r) (simp add: u) }
    { assume "\<forall>k. fst (draws k (rand t)) \<in> set (snake t @ [next_cell t])"
      with e have "random_food_position (snake t @ [food t]) (rand t) = None"
        by (intro random_food_position_no_free) simp
      then show "update_v11 fl t = Hang" by (simp add: u) }
    { assume "\<forall>p. in_grid p \<longrightarrow> p \<in> set (snake t @ [next_cell t])"
      with e have "random_food_position (snake t @ [food t]) (rand t) = None"
        by (intro random_food_position_full) simp
      then show "update_v11 fl t = Hang" by (simp add: u) } }
qed

theorem tick_without_collision_witness:
  "(\<exists>s'. update_v1 first_bite_v1 = Ret s' \<and> snake s' = [(17, 15), (16, 15), (15, 15), (14, 15)]
       \<and> score s' = 1 \<and> food s' \<notin> set (snake s') \<and> in_grid (food s'))
   \<and> (\<exists>t'. update_v11 (\<lambda>x. x) plain_move_v11 = Ret t' \<and> snake t' = [(15, 15), (16, 15)]
       \<and> score t' = 0 \<and> food t' = (3, 7))"
proof -
  have s1: "snake first_bite_v1 \<noteq> [] \<and> \<not> collision_v1 (snake first_bite_v1) (next_cell first_bite_v1)"
    and s2: "next_cell first_bite_v1 = food first_bite_v1"
    and s3: "fst (draws 0 (rand first_bite_v1)) \<notin> set (snake first_bite_v1 @ [next_cell first_bite_v1])"
    and s4: "snake first_bite_v1 @ [next_cell first_bite_v1] = [(17, 15), (16, 15), (15, 15), (14, 15)]"
    and s5: "score first_bite_v1 = 0"
    by (simp_all add: first_bite_v1_def next_cell_def new_head_def commit_direction_def
        collision_v1_def GRID_WIDTH_def GRID_HEIGHT_def draw_pos_cycle)
  have t1: "snake plain_move_v11 \<noteq> [] \<and> \<not> collision_v11 (snake plain_move_v11) (next_cell plain_move_v11)"
    and t2: "next_cell plain_move_v11 \<noteq> food plain_move_v11"
    and t4: "tl (snake plain_move_v11) @ [next_cell plain_move_v11] = [(15, 15), (16, 15)]"
    and t5: "score plain_move_v11 = 0" "food plain_move_v11 = (3, 7)"
    by (simp_all add: plain_move_v11_def next_cell_def new_head_def commit_direction_def
        collision_v11_def GRID_WIDTH_def GRID_HEIGHT_def)
  note inst = tick_without_collision [of first_bite_v1 plain_move_v11 "\<lambda>x. x"]
  from inst s1 s2 s3 obtain s' where r: "update_v1 first_bite_v1 = Ret s'" by blast
  with inst s1 s2 have "snake s' = snake first_bite_v1 @ [next_cell first_bite_v1]
      \<and> score s' = score first_bite_v1 + 1 \<and> food s' \<notin> set (snake s') \<and> in_grid (food s')"
    by blast
  with r s4 s5 have A: "\<exists>s'. update_v1 first_bite_v1 = Ret s' \<and> snake s' = [(17, 15), (16, 15), (15, 15), (14, 15)]
       \<and> score s' = 1 \<and> food s' \<notin> set (snake s') \<and> in_grid (food s')"
    by auto
  from inst t1 t2 obtain t' where "update_v11 (\<lambda>x. x) plain_move_v11 = Ret t'
      \<and> snake t' = tl (snake plain_move_v11) @ [next_cell plain_move_v11]
      \<and> score t' = score plain_move_v11 \<and> food t' = food plain_move_v11"
    by blast
  with t4 t5 have B: "\<exists>t'. update_v11 (\<lambda>x. x) plain_move_v11 = Ret t' \<and> snake t' = [(15, 15), (16, 15)]
       \<and> score t' = 0 \<and> food t' = (3, 7)"
    by simp
  from A B show ?thesis by blast
qed

text \<open>
  Claim C2 as stated promises the growth, the score and the new food for every tick
  without collision.  On the bite that fills the grid, a tick without collision that
  eats, with a snake of 899 distinct cells in the grid, neither program returns from the
  tick: there is no cell left for the food loop to find.
\<close>

lemma set_serpentine_row: "set (serpentine_row y) = {(x, y) | x. 0 \<le> x \<and> x < GRID_WIDTH}"
  by (auto simp: serpentine_row_def)

lemma length_serpentine_row: "length (serpentine_row y) = 30"
  by (simp add: serpentine_row_def GRID_WIDTH_def)

lemma distinct_serpentine_row: "distinct (serpentine_row y)"
  by (simp add: serpentine_row_def distinct_map inj_on_def)

lemma set_last_bite_snake: "set last_bite_snake = {p. in_grid p} - {(0, 29)}"
  by (auto simp: last_bite_snake_def set_serpentine_row in_grid_def GRID_WIDTH_def GRID_HEIGHT_def)

lemma last_last_bite_snake: "last last_bite_snake = (1, 29)"
proof -
  have "[1 .. GRID_WIDTH - 1] = 1 # [2 .. GRID_WIDTH - 1]"
    by (simp add: GRID_WIDTH_def upto_rec1)
  then show ?thesis
    by (simp add: last_bite_snake_def last_rev GRID_HEIGHT_def)
qed

lemma length_last_bite_snake: "length last_bite_snake = 899"
  by (simp add: last_bite_snake_def length_concat comp_def length_serpentine_row
      sum_list_triv GRID_WIDTH_def GRID_HEIGHT_def)

lemma last_bite_snake_nonempty: "last_bite_snake \<noteq> []"
  using length_last_bite_snake by auto

lemma serpentine_row_nonempty: "serpentine_row y \<noteq> []"
  using length_serpentine_row [of y] by auto

lemma serpentine_row_inj: "serpentine_row y = serpentine_row z \<Longrightarrow> y = z"
proof -
  assume eq: "serpentine_row y = serpentine_row z"
  have "(0, y) \<in> set (serpentine_row y)" by (simp add: set_serpentine_row GRID_WIDTH_def)
  with eq have "(0, y) \<in> set (serpentine_row z)" by simp
  then show "y = z" by (simp add: set_serpentine_row)
qed

lemma distinct_last_bite_snake: "distinct last_bite_snake"
proof -
  have rows: "distinct (concat (map serpentine_row [0 .. GRID_HEIGHT - 2]))"
  proof (rule distinct_concat)
    show "distinct (map serpentine_row [0 .. GRID_HEIGHT - 2])"
      by (auto simp: distinct_map inj_on_def dest: serpentine_row_inj)
  next
    fix ys assume "ys \<in> set (map serpentine_row [0 .. GRID_HEIGHT - 2])"
    then show "distinct ys" by (auto simp: distinct_serpentine_row)
  next
    fix ys zs
    assume "ys \<in> set (map serpentine_row [0 .. GRID_HEIGHT - 2])"
      "zs \<in> set (map serpentine_row [0 .. GRID_HEIGHT - 2])" "ys \<noteq> zs"
    then show "set ys \<inter> set zs = {}" by (auto simp: set_serpentine_row)
  qed
  have lastrow: "distinct (rev (map (\<lambda>x. (x, GRID_HEIGHT - 1)) [1 .. GRID_WIDTH - 1]))"
    by (simp add: distinct_map inj_on_def)
  have "set (concat (map serpentine_row [0 .. GRID_HEIGHT - 2]))
      \<inter> set (rev (map (\<lambda>x. (x, GRID_HEIGHT - 1)) [1 .. GRID_WIDTH - 1])) = {}"
    by (auto simp: set_serpentine_row)
  with rows lastrow show ?thesis by (simp add: last_bite_snake_def)
qed

lemma snake_ok_last_bite_snake: "snake_ok last_bite_snake"
  using set_last_bite_snake
  by (auto simp: snake_ok_def last_bite_snake_nonempty distinct_last_bite_snake list_all_iff)

lemma update_v1_full_grid_bite:
  assumes "snake s \<noteq> []" "\<not> collision_v1 (snake s) (next_cell s)" "next_cell s = food s"
    "\<forall>p. in_grid p \<longrightarrow> p \<in> set (snake s @ [next_cell s])"
  shows "update_v1 s = Hang"
proof -
  from assms(4,3) have "random_food_position (snake s @ [food s]) (rand s) = None"
    by (intro random_food_position_full) simp
  with assms(1-3) show ?thesis by (simp add: next_cell_def update_v1_eat)
qed

lemma update_v11_full_grid_bite:
  assumes "snake s \<noteq> []" "\<not> collision_v11 (snake s) (next_cell s)" "next_cell s = food s"
    "\<forall>p. in_grid p \<longrightarrow> p \<in> set (snake s @ [next_cell s])"
  shows "update_v11 fl s = Hang"
proof -
  from assms(4,3) have "random_food (snake s @ [food s]) (rand s) = None"
    unfolding random_food_eq by (intro random_food_position_full) simp
  with assms(1-3) show ?thesis by (simp add: next_cell_def update_v11_eat)
qed

lemma last_bite_facts:
  "next_cell last_bite_v1 = (0, 29)" "next_cell last_bite_v11 = (0, 29)"
  "snake last_bite_v1 = last_bite_snake" "snake last_bite_v11 = last_bite_snake"
  "food last_bite_v1 = (0, 29)" "food last_bite_v11 = (0, 29)"
  "\<not> game_over last_bite_v1" "\<not> game_over last_bite_v11"
  by (simp_all add: last_bite_v1_def last_bite_v11_def next_cell_def new_head_def
      commit_direction_def last_last_bite_snake)

theorem grid_filling_bite_counterexample:
  "\<not> game_over last_bite_v1
   \<and> snake_ok (snake last_bite_v1) \<and> length (snake last_bite_v1) = 899
   \<and> \<not> collision_v1 (snake last_bite_v1) (next_cell last_bite_v1)
   \<and> next_cell last_bite_v1 = food last_bite_v1
   \<and> update_v1 last_bite_v1 = Hang
   \<and> \<not> game_over last_bite_v11
   \<and> snake_ok (snake last_bite_v11) \<and> length (snake last_bite_v11) = 899
   \<and> \<not> collision_v11 (snake last_bite_v11) (next_cell last_bite_v11)
   \<and> next_cell last_bite_v11 = food last_bite_v11
   \<and> update_v11 (\<lambda>x. x) last_bite_v11 = Hang"
proof -
  have nc: "\<not> collision_v1 last_bite_snake (0, 29)" "\<not> collision_v11 last_bite_snake (0, 29)"
    by (simp_all add: collision_v1_iff collision_v11_iff set_last_bite_snake)
      (simp_all add: in_grid_def GRID_WIDTH_def GRID_HEIGHT_def)
  have full: "\<forall>p. in_grid p \<longrightarrow> p \<in> set (last_bite_snake @ [(0, 29)])"
    by (auto simp: set_last_bite_snake)
  have h1: "update_v1 last_bite_v1 = Hang"
  proof (rule update_v1_full_grid_bite)
    show "\<forall>p. in_grid p \<longrightarrow> p \<in> set (snake last_bite_v1 @ [next_cell last_bite_v1])"
      unfolding last_bite_facts(1,3) by (rule full)
  qed (simp_all add: last_bite_facts last_bite_snake_nonempty nc)
  have h2: "update_v11 (\<lambda>x. x) last_bite_v11 = Hang"
  proof (rule update_v11_full_grid_bite)
    show "\<forall>p. in_grid p \<longrightarrow> p \<in> set (snake last_bite_v11 @ [next_cell last_bite_v11])"
      unfolding last_bite_facts(2,4) by (rule full)
  qed (simp_all add: last_bite_facts last_bite_snake_nonempty nc)
  from h1 h2 nc show ?thesis
    by (simp add: last_bite_facts snake_ok_last_bite_snake length_last_bite_snake)
qed



subsection \<open>The invariant of the snake\<close>

lemma snake_ok_initial_v1: "snake_ok initial_snake_v1"
  by (simp add: snake_ok_def initial_snake_v1_eq in_grid_def GRID_WIDTH_def GRID_HEIGHT_def)

lemma snake_ok_initial_v11: "snake_ok initial_snake_v11"
  by (simp add: snake_ok_def initial_snake_v11_eq in_grid_def GRID_WIDTH_def GRID_HEIGHT_def)

lemma handle_events_v1_Cons:
  "handle_events_v1 (e # es) s =
     obind (handle_events_v1 [e] s)
       (\<lambda>s1. if e = QUIT \<or> e = KEYDOWN K_ESCAPE then Ret s1 else handle_events_v1 es s1)"
proof (cases e)
  case (KEYDOWN k)
  then show ?thesis by (cases k) (simp_all add: Let_def split: option.splits)
qed simp_all

lemma handle_events_v11_Cons:
  "handle_events_v11 (e # es) s = obind (handle_events_v11 [e] s) (handle_events_v11 es)"
proof (cases e)
  case (KEYDOWN k)
  then show ?thesis by (cases k) (simp_all add: Let_def split: option.splits)
qed simp_all

lemma obind_RetD: "obind m f = Ret y \<Longrightarrow> \<exists>x. m = Ret x \<and> f x = Ret y"
  by (cases m) simp_all

lemma handle_event_v1_snake:
  "handle_events_v1 [e] s = Ret s' \<Longrightarrow> snake s' = snake s \<or> snake s' = initial_snake_v1"
proof (cases e)
  case (KEYDOWN k)
  assume "handle_events_v1 [e] s = Ret s'"
  with KEYDOWN show ?thesis
    by (cases k) (auto simp: Let_def split: if_splits option.splits)
qed auto

lemma handle_event_v11_snake:
  "handle_events_v11 [e] s = Ret s' \<Longrightarrow> snake s' = snake s \<or> snake s' = initial_snake_v11"
proof (cases e)
  case (KEYDOWN k)
  assume "handle_events_v11 [e] s = Ret s'"
  with KEYDOWN show ?thesis
    by (cases k) (auto simp: Let_def split: if_splits option.splits)
qed auto

lemma handle_events_v1_snake_ok:
  "handle_events_v1 evs s = Ret s' \<Longrightarrow> snake_ok (snake s) \<Longrightarrow> snake_ok (snake s')"
proof (induction evs arbitrary: s)
  case Nil
  then show ?case by simp
next
  case (Cons e es)
  from Cons.prems(1) obtain s1 where one: "handle_events_v1 [e] s = Ret s1"
    and rest: "(if e = QUIT \<or> e = KEYDOWN K_ESCAPE then Ret s1 else handle_events_v1 es s1) = Ret s'"
    by (subst (asm) handle_events_v1_Cons) (auto dest!: obind_RetD)
  from handle_event_v1_snake [OF one] Cons.prems(2) have "snake_ok (snake s1)"
    by (auto simp: snake_ok_initial_v1)
  with rest Cons.IH show ?case by (auto split: if_splits)
qed

lemma handle_events_v11_snake_ok:
  "handle_events_v11 evs s = Ret s' \<Longrightarrow> snake_ok (snake s) \<Longrightarrow> snake_ok (snake s')"
proof (induction evs arbitrary: s)
  case Nil
  then show ?case by simp
next
  case (Cons e es)
  from Cons.prems(1) obtain s1 where one: "handle_events_v11 [e] s = Ret s1"
    and rest: "handle_events_v11 es s1 = Ret s'"
    by (subst (asm) handle_events_v11_Cons) (auto dest!: obind_RetD)
  from handle_event_v11_snake [OF one] Cons.prems(2) have "snake_ok (snake s1)"
    by (auto simp: snake_ok_initial_v11)
  with rest Cons.IH show ?case by blast
qed

lemma snake_ok_grow: "snake_ok sn \<Longrightarrow> in_grid nh \<Longrightarrow> nh \<notin> set sn \<Longrightarrow> snake_ok (sn @ [nh])"
  by (simp add: snake_ok_def)

lemma snake_ok_shift: "snake_ok sn \<Longrightarrow> in_grid nh \<Longrightarrow> nh \<notin> set sn \<Longrightarrow> snake_ok (tl sn @ [nh])"
  by (cases sn) (auto simp: snake_ok_def)

lemma update_v1_snake_ok:
  "update_v1 s = Ret s' \<Longrightarrow> snake_ok (snake s) \<Longrightarrow> snake_ok (snake s')"
  by (auto simp: update_v1_def Let_def collision_v1_iff snake_ok_grow snake_ok_shift
      split: if_splits option.splits)

lemma update_v11_snake_ok:
  "update_v11 fl s = Ret s' \<Longrightarrow> snake_ok (snake s) \<Longrightarrow> snake_ok (snake s')"
  by (auto simp: update_v11_def Let_def collision_v11_iff snake_ok_grow snake_ok_shift
      split: if_splits option.splits)

lemma frame_v1_snake_ok:
  assumes "frame_v1 evs s = Ret s'" "snake_ok (snake s)"
  shows "snake_ok (snake s')"
proof -
  from assms(1) obtain s1 where ev: "handle_events_v1 evs s = Ret s1"
    and up: "(if \<not> running s1 then Ret s1 else if \<not> game_over s1 then update_v1 s1 else Ret s1) = Ret s'"
    by (auto simp: frame_v1_def dest!: obind_RetD)
  from handle_events_v1_snake_ok [OF ev assms(2)] have "snake_ok (snake s1)" .
  with up show ?thesis by (auto split: if_splits intro: update_v1_snake_ok)
qed

lemma decay_shake_fields [simp]:
  "snake (decay_shake fl dt s) = snake s"
  "food (decay_shake fl dt s) = food s"
  "score (decay_shake fl dt s) = score s"
  "game_over (decay_shake fl dt s) = game_over s"
  "direction (decay_shake fl dt s) = direction s"
  "next_direction (decay_shake fl dt s) = next_direction s"
  "rand (decay_shake fl dt s) = rand s"
  by (simp_all add: decay_shake_def)

lemma frame_v11_RetD:
  assumes "frame_v11 fl inp s = Ret (s', off)"
  shows "\<exists>s1 s2 g. handle_events_v11 (events inp) s = Ret s1
    \<and> (if \<not> game_over s1 then update_v11 fl s1 else Ret s1) = Ret s2
    \<and> shake_offset fl (shake_time (decay_shake fl (fl (real_of_int (tick_ms inp) / 1000)) s2))
          (rand s2) = Ret (off, g)
    \<and> s' = (decay_shake fl (fl (real_of_int (tick_ms inp) / 1000)) s2)\<lparr>rand := g\<rparr>"
proof -
  from assms obtain s1 where ev: "handle_events_v11 (events inp) s = Ret s1"
    and r1: "obind (if \<not> game_over s1 then update_v11 fl s1 else Ret s1) (\<lambda>s2.
           let s3 = decay_shake fl (fl (real_of_int (tick_ms inp) / 1000)) s2
           in obind (shake_offset fl (shake_time s3) (rand s3)) (\<lambda>(off, g).
                Ret (s3\<lparr>rand := g\<rparr>, off))) = Ret (s', off)"
    by (auto simp: frame_v11_def Let_def dest!: obind_RetD)
  from obind_RetD [OF r1] obtain s2
    where up: "(if \<not> game_over s1 then update_v11 fl s1 else Ret s1) = Ret s2"
    and r2: "obind (shake_offset fl
               (shake_time (decay_shake fl (fl (real_of_int (tick_ms inp) / 1000)) s2))
               (rand (decay_shake fl (fl (real_of_int (tick_ms inp) / 1000)) s2)))
             (\<lambda>(off, g). Ret ((decay_shake fl (fl (real_of_int (tick_ms inp) / 1000)) s2)
                              \<lparr>rand := g\<rparr>, off)) = Ret (s', off)"
    by (auto simp: Let_def)
  from obind_RetD [OF r2] obtain og
    where sh: "shake_offset fl
               (shake_time (decay_shake fl (fl (real_of_int (tick_ms inp) / 1000)) s2))
               (rand s2) = Ret og"
    and r3: "(case og of (off, g) \<Rightarrow>
               Ret ((decay_shake fl (fl (real_of_int (tick_ms inp) / 1000)) s2)\<lparr>rand := g\<rparr>, off))
             = Ret (s', off)"
    by auto
  obtain off' g where og: "og = (off', g)" by (cases og)
  with r3 have "off' = off"
    and "s' = (decay_shake fl (fl (real_of_int (tick_ms inp) / 1000)) s2)\<lparr>rand := g\<rparr>"
    by simp_all
  with ev up sh og show ?thesis by blast
qed

lemma frame_v11_snake_ok:
  assumes "frame_v11 fl inp s = Ret (s', off)" "snake_ok (snake s)"
  shows "snake_ok (snake s')"
proof -
  from frame_v11_RetD [OF assms(1)] obtain s1 s2 g
    where ev: "handle_events_v11 (events inp) s = Ret s1"
    and up: "(if \<not> game_over s1 then update_v11 fl s1 else Ret s1) = Ret s2"
    and s': "s' = (decay_shake fl (fl (real_of_int (tick_ms inp) / 1000)) s2)\<lparr>rand := g\<rparr>"
    by blast
  from handle_events_v11_snake_ok [OF ev assms(2)] have "snake_ok (snake s1)" .
  with up have "snake_ok (snake s2)" by (auto split: if_splits intro: update_v11_snake_ok)
  with s' show ?thesis by simp
qed

lemma main_loop_v1_snake_ok:
  "main_loop_v1 batches s = Ret s' \<Longrightarrow> snake_ok (snake s) \<Longrightarrow> snake_ok (snake s')"
proof (induction batches arbitrary: s)
  case Nil
  then show ?case by simp
next
  case (Cons evs rest)
  show ?case
  proof (cases "running s")
    case True
    with Cons.prems(1) obtain s1 where "frame_v1 evs s = Ret s1" "main_loop_v1 rest s1 = Ret s'"
      by (auto dest!: obind_RetD)
    with Cons.IH Cons.prems(2) show ?thesis by (blast intro: frame_v1_snake_ok)
  next
    case False
    with Cons.prems show ?thesis by simp
  qed
qed

lemma main_loop_v11_snake_ok:
  "main_loop_v11 fl inps s = Ret s' \<Longrightarrow> snake_ok (snake s) \<Longrightarrow> snake_ok (snake s')"
proof (induction inps arbitrary: s)
  case Nil
  then show ?case by simp
next
  case (Cons inp rest)
  from Cons.prems(1) obtain s1 off where "frame_v11 fl inp s = Ret (s1, off)"
    "main_loop_v11 fl rest s1 = Ret s'"
    by (auto dest!: obind_RetD)
  with Cons.IH Cons.prems(2) show ?case by (blast intro: frame_v11_snake_ok)
qed

lemma init_v1_snake: "init_v1 g = Ret s \<Longrightarrow> snake s = initial_snake_v1"
  by (auto simp: init_v1_def split: option.splits)

lemma init_v11_snake: "init_v11 g = Ret s \<Longrightarrow> snake s = initial_snake_v11"
  by (auto simp: init_v11_def split: option.splits)

text \<open>
  Claim C5.  In every state that either program reaches from its initial state, through
  any frames with any events (restarts included), the snake is not empty, every segment
  lies in the grid and no two segments share a cell.
\<close>

theorem reachable_snake_in_grid_and_distinct:
  "(play_v1 g batches = Ret s \<longrightarrow>
      snake s \<noteq> [] \<and> (\<forall>p \<in> set (snake s). in_grid p) \<and> distinct (snake s))
   \<and> (play_v11 fl g' inps = Ret t \<longrightarrow>
      snake t \<noteq> [] \<and> (\<forall>p \<in> set (snake t). in_grid p) \<and> distinct (snake t))"
proof (rule conjI; rule impI)
  assume "play_v1 g batches = Ret s"
  then obtain s0 where "init_v1 g = Ret s0" "main_loop_v1 batches s0 = Ret s"
    by (auto simp: play_v1_def dest!: obind_RetD)
  then have "snake_ok (snake s)"
    by (auto dest!: init_v1_snake intro: main_loop_v1_snake_ok simp: snake_ok_initial_v1)
  then show "snake s \<noteq> [] \<and> (\<forall>p \<in> set (snake s). in_grid p) \<and> distinct (snake s)"
    by (simp add: snake_ok_def list_all_iff)
next
  assume "play_v11 fl g' inps = Ret t"
  then obtain t0 where "init_v11 g' = Ret t0" "main_loop_v11 fl inps t0 = Ret t"
    by (auto simp: play_v11_def dest!: obind_RetD)
  then have "snake_ok (snake t)"
    by (auto dest!: init_v11_snake intro: main_loop_v11_snake_ok simp: snake_ok_initial_v11)
  then show "snake t \<noteq> [] \<and> (\<forall>p \<in> set (snake t). in_grid p) \<and> distinct (snake t)"
    by (simp add: snake_ok_def list_all_iff)
qed

theorem reachable_snake_in_grid_and_distinct_witness:
  "play_v1 (cycle [14, 15, 3, 7]) [[], [KEYDOWN K_UP], [KEYDOWN K_RIGHT], [KEYDOWN K_DOWN]]
       = Ret (tail_chase_v1\<lparr>direction := (0, 1), game_over := True\<rparr>)
   \<and> list_all in_grid [(15, 15), (14, 15), (14, 14), (15, 14)]
   \<and> distinct [(15 :: int, 15 :: int), (14, 15), (14, 14), (15, 14)]
   \<and> play_v11 (\<lambda>x. x) (cycle [16, 15, 17, 15, 3, 7])
        [idle [], idle [], idle [KEYDOWN K_UP], idle [KEYDOWN K_LEFT], idle [KEYDOWN K_DOWN]]
       = Ret (tail_chase_v11\<lparr>direction := (0, 1), game_over := True\<rparr>)
   \<and> list_all in_grid [(16, 15), (17, 15), (17, 14), (16, 14)]
   \<and> distinct [(16 :: int, 15 :: int), (17, 15), (17, 14), (16, 14)]"
proof -
  have a: "play_v1 (cycle [14, 15, 3, 7]) [[], [KEYDOWN K_UP], [KEYDOWN K_RIGHT], [KEYDOWN K_DOWN]]
       = Ret (tail_chase_v1\<lparr>direction := (0, 1), game_over := True\<rparr>)"
    by (simp add: run_v1 tail_chase_v1_def)
  have b: "play_v11 (\<lambda>x. x) (cycle [16, 15, 17, 15, 3, 7])
        [idle [], idle [], idle [KEYDOWN K_UP], idle [KEYDOWN K_LEFT], idle [KEYDOWN K_DOWN]]
       = Ret (tail_chase_v11\<lparr>direction := (0, 1), game_over := True\<rparr>)"
    by (simp add: run_v11 tail_chase_v11_def)
  from reachable_snake_in_grid_and_distinct
    [where g = "cycle [14, 15, 3, 7]"
       and batches = "[[], [KEYDOWN K_UP], [KEYDOWN K_RIGHT], [KEYDOWN K_DOWN]]"
       and s = "tail_chase_v1\<lparr>direction := (0, 1), game_over := True\<rparr>"
       and fl = "\<lambda>x. x" and g' = "cycle [16, 15, 17, 15, 3, 7]"
       and inps = "[idle [], idle [], idle [KEYDOWN K_UP], idle [KEYDOWN K_LEFT], idle [KEYDOWN K_DOWN]]"
       and t = "tail_chase_v11\<lparr>direction := (0, 1), game_over := True\<rparr>"] a b
  have "(\<forall>p \<in> set (snake tail_chase_v1). in_grid p) \<and> distinct (snake tail_chase_v1)
      \<and> (\<forall>p \<in> set (snake tail_chase_v11). in_grid p) \<and> distinct (snake tail_chase_v11)"
    by simp
  then have "list_all in_grid [(15, 15), (14, 15), (14, 14), (15, 14)]
   \<and> distinct [(15 :: int, 15 :: int), (14, 15), (14, 14), (15, 14)]
   \<and> list_all in_grid [(16, 15), (17, 15), (17, 14), (16, 14)]
   \<and> distinct [(16 :: int, 15 :: int), (17, 15), (17, 14), (16, 14)]"
    by (simp add: tail_chase_v1_def tail_chase_v11_def)
  with a b show ?thesis by simp
qed

subsection \<open>Frames after the game is over\<close>

lemma same_world_refl [simp]: "same_world s s"
  by (simp add: same_world_def)

lemma same_world_trans: "same_world s s1 \<Longrightarrow> same_world s1 s2 \<Longrightarrow> same_world s s2"
  by (simp add: same_world_def)

lemma handle_event_v1_same_world:
  "e \<noteq> KEYDOWN K_r \<or> \<not> game_over s \<Longrightarrow>
   \<exists>s'. handle_events_v1 [e] s = Ret s' \<and> same_world s s'"
proof (cases e)
  case (KEYDOWN k)
  assume "e \<noteq> KEYDOWN K_r \<or> \<not> game_over s"
  with KEYDOWN show ?thesis by (cases k) (auto simp: same_world_def)
qed (simp_all add: same_world_def)

lemma handle_events_v1_same_world:
  "KEYDOWN K_r \<notin> set evs \<or> \<not> game_over s \<Longrightarrow>
   \<exists>s'. handle_events_v1 evs s = Ret s' \<and> same_world s s'"
proof (induction evs arbitrary: s)
  case Nil
  then show ?case by simp
next
  case (Cons e es)
  from Cons.prems have "e \<noteq> KEYDOWN K_r \<or> \<not> game_over s" by auto
  from handle_event_v1_same_world [OF this] obtain s1
    where one: "handle_events_v1 [e] s = Ret s1" and w1: "same_world s s1" by blast
  from w1 Cons.prems have "KEYDOWN K_r \<notin> set es \<or> \<not> game_over s1"
    by (auto simp: same_world_def)
  from Cons.IH [OF this] obtain s2
    where rest: "handle_events_v1 es s1 = Ret s2" and w2: "same_world s1 s2" by blast
  show ?case
  proof (cases "e = QUIT \<or> e = KEYDOWN K_ESCAPE")
    case True
    with one w1 show ?thesis by (subst handle_events_v1_Cons) auto
  next
    case False
    with one rest same_world_trans [OF w1 w2] show ?thesis
      by (subst handle_events_v1_Cons) auto
  qed
qed

lemma frame_v1_game_over:
  assumes "game_over s" "KEYDOWN K_r \<notin> set evs"
  shows "\<exists>s'. frame_v1 evs s = Ret s' \<and> same_world s s'"
proof -
  from handle_events_v1_same_world [of evs s] assms(2) obtain s1
    where "handle_events_v1 evs s = Ret s1" "same_world s s1" by blast
  with assms(1) show ?thesis by (auto simp: frame_v1_def same_world_def)
qed

lemma main_loop_v1_game_over:
  "game_over s \<Longrightarrow> \<forall>evs \<in> set batches. KEYDOWN K_r \<notin> set evs \<Longrightarrow>
   \<exists>s'. main_loop_v1 batches s = Ret s' \<and> same_world s s'"
proof (induction batches arbitrary: s)
  case Nil
  then show ?case by simp
next
  case (Cons evs rest)
  show ?case
  proof (cases "running s")
    case True
    from Cons.prems frame_v1_game_over [of s evs] obtain s1
      where f: "frame_v1 evs s = Ret s1" and w: "same_world s s1" by auto
    with Cons.prems have "game_over s1" by (simp add: same_world_def)
    from Cons.IH [OF this] Cons.prems(2) obtain s2
      where "main_loop_v1 rest s1 = Ret s2" "same_world s1 s2" by auto
    with True f w show ?thesis by (auto intro: same_world_trans)
  next
    case False
    then show ?thesis by simp
  qed
qed

lemma handle_event_v11_same_world:
  "e \<noteq> KEYDOWN K_r \<or> \<not> game_over s \<Longrightarrow>
   handle_events_v11 [e] s = Raise SystemExit
   \<or> (\<exists>s'. handle_events_v11 [e] s = Ret s' \<and> same_world s s' \<and> shake_time s' = shake_time s)"
proof (cases e)
  case (KEYDOWN k)
  assume "e \<noteq> KEYDOWN K_r \<or> \<not> game_over s"
  with KEYDOWN show ?thesis by (cases k) (auto simp: same_world_def)
qed (simp_all add: same_world_def)

lemma handle_events_v11_same_world:
  "KEYDOWN K_r \<notin> set evs \<or> \<not> game_over s \<Longrightarrow>
   handle_events_v11 evs s = Raise SystemExit
   \<or> (\<exists>s'. handle_events_v11 evs s = Ret s' \<and> same_world s s' \<and> shake_time s' = shake_time s)"
proof (induction evs arbitrary: s)
  case Nil
  then show ?case by simp
next
  case (Cons e es)
  from Cons.prems have "e \<noteq> KEYDOWN K_r \<or> \<not> game_over s" by auto
  from handle_event_v11_same_world [OF this] show ?case
  proof
    assume "handle_events_v11 [e] s = Raise SystemExit"
    then show ?thesis by (subst handle_events_v11_Cons) simp
  next
    assume "\<exists>s'. handle_events_v11 [e] s = Ret s' \<and> same_world s s' \<and> shake_time s' = shake_time s"
    then obtain s1 where one: "handle_events_v11 [e] s = Ret s1" and w1: "same_world s s1"
      and sh: "shake_time s1 = shake_time s" by blast
    from w1 Cons.prems have "KEYDOWN K_r \<notin> set es \<or> \<not> game_over s1"
      by (auto simp: same_world_def)
    from Cons.IH [OF this]
    have ih: "handle_events_v11 es s1 = Raise SystemExit
      \<or> (\<exists>s'. handle_events_v11 es s1 = Ret s' \<and> same_world s1 s' \<and> shake_time s' = shake_time s1)" .
    have eq: "handle_events_v11 (e # es) s = handle_events_v11 es s1"
      by (subst handle_events_v11_Cons) (simp add: one)
    from ih w1 sh show ?thesis
      unfolding eq by (auto intro: same_world_trans)
  qed
qed

lemma shake_offset_not_Hang: "shake_offset fl st g \<noteq> Hang"
  by (simp add: shake_offset_def Let_def split: prod.splits)

lemma decay_shake_same_world: "same_world s (decay_shake fl dt s)"
  by (simp add: same_world_def)

lemma frame_v11_game_over:
  assumes "game_over s" "KEYDOWN K_r \<notin> set (events inp)"
  shows "frame_v11 fl inp s \<noteq> Hang
    \<and> (\<forall>s' off. frame_v11 fl inp s = Ret (s', off) \<longrightarrow> same_world s s')"
proof -
  from handle_events_v11_same_world [of "events inp" s] assms(2)
  have "handle_events_v11 (events inp) s = Raise SystemExit
    \<or> (\<exists>s'. handle_events_v11 (events inp) s = Ret s' \<and> same_world s s' \<and> shake_time s' = shake_time s)"
    by simp
  then show ?thesis
  proof
    assume "handle_events_v11 (events inp) s = Raise SystemExit"
    then show ?thesis by (simp add: frame_v11_def)
  next
    assume "\<exists>s'. handle_events_v11 (events inp) s = Ret s' \<and> same_world s s' \<and> shake_time s' = shake_time s"
    then obtain s1 where one: "handle_events_v11 (events inp) s = Ret s1" and w1: "same_world s s1"
      by blast
    with assms(1) have g: "game_over s1" by (simp add: same_world_def)
    let ?s3 = "decay_shake fl (fl (real_of_int (tick_ms inp) / 1000)) s1"
    have f: "frame_v11 fl inp s =
        obind (shake_offset fl (shake_time ?s3) (rand ?s3)) (\<lambda>(off, g). Ret (?s3\<lparr>rand := g\<rparr>, off))"
      by (simp add: frame_v11_def one g Let_def)
    have w3: "same_world s ?s3"
      by (rule same_world_trans [OF w1 decay_shake_same_world])
    then have w4: "same_world s (?s3\<lparr>rand := h\<rparr>)" for h
      by (simp add: same_world_def)
    show ?thesis
      by (cases "shake_offset fl (shake_time ?s3) (rand ?s3)")
        (use w4 shake_offset_not_Hang [of fl "shake_time ?s3" "rand ?s3"] in \<open>auto simp: f\<close>)
  qed
qed

lemma main_loop_v11_game_over:
  "game_over s \<Longrightarrow> \<forall>inp \<in> set inps. KEYDOWN K_r \<notin> set (events inp) \<Longrightarrow>
   main_loop_v11 fl inps s \<noteq> Hang
   \<and> (\<forall>s'. main_loop_v11 fl inps s = Ret s' \<longrightarrow> same_world s s')"
proof (induction inps arbitrary: s)
  case Nil
  then show ?case by simp
next
  case (Cons inp rest)
  from Cons.prems frame_v11_game_over [of s inp fl]
  have nh: "frame_v11 fl inp s \<noteq> Hang"
    and fr: "\<And>s' off. frame_v11 fl inp s = Ret (s', off) \<Longrightarrow> same_world s s'" by auto
  show ?case
  proof (cases "frame_v11 fl inp s")
    case Hang
    with nh show ?thesis by simp
  next
    case (Raise e)
    then show ?thesis by simp
  next
    case (Ret r)
    obtain s1 off where r: "r = (s1, off)" by (cases r)
    from fr Ret r have w: "same_world s s1" by simp
    with Cons.prems have "game_over s1" by (simp add: same_world_def)
    from Cons.IH [OF this] Cons.prems(2)
    have "main_loop_v11 fl rest s1 \<noteq> Hang
      \<and> (\<forall>s'. main_loop_v11 fl rest s1 = Ret s' \<longrightarrow> same_world s1 s')" by simp
    with Ret r w show ?thesis by (auto intro: same_world_trans)
  qed
qed

text \<open>
  Claim C3.  A tick whose new head is outside the grid or on a snake segment returns
  with the mode set to game over and the snake, food and score as they were.  From a
  game-over state, any number of further frames whose events hold no \<^verbatim>\<open>K_r\<close> key leave
  the snake, food, score and mode as they are: \<^verbatim>\<open>super_snake.py\<close> always returns such a
  state; \<^verbatim>\<open>super_snake_V1.1.py\<close> never hangs there, and returns such a state unless the
  process exits.
\<close>

theorem collision_ends_game_and_freezes:
  "(snake s \<noteq> [] \<and> (\<not> in_grid (next_cell s) \<or> next_cell s \<in> set (snake s)) \<longrightarrow>
      (\<exists>s'. update_v1 s = Ret s' \<and> game_over s' \<and> snake s' = snake s \<and> food s' = food s
         \<and> score s' = score s))
   \<and> (game_over s \<and> (\<forall>evs \<in> set batches. KEYDOWN K_r \<notin> set evs) \<longrightarrow>
      (\<exists>s'. main_loop_v1 batches s = Ret s' \<and> game_over s' \<and> snake s' = snake s
         \<and> food s' = food s \<and> score s' = score s))
   \<and> (snake t \<noteq> [] \<and> (\<not> in_grid (next_cell t) \<or> next_cell t \<in> set (snake t)) \<longrightarrow>
      (\<exists>t'. update_v11 fl t = Ret t' \<and> game_over t' \<and> snake t' = snake t \<and> food t' = food t
         \<and> score t' = score t))
   \<and> (game_over t \<and> (\<forall>inp \<in> set inps. KEYDOWN K_r \<notin> set (events inp)) \<longrightarrow>
      main_loop_v11 fl inps t \<noteq> Hang
      \<and> (\<forall>t'. main_loop_v11 fl inps t = Ret t' \<longrightarrow>
            game_over t' \<and> snake t' = snake t \<and> food t' = food t \<and> score t' = score t))"
proof (intro conjI; rule impI)
  assume a: "snake s \<noteq> [] \<and> (\<not> in_grid (next_cell s) \<or> next_cell s \<in> set (snake s))"
  then have c: "collision_v1 (snake s) (new_head (commit_direction s))"
    by (simp add: collision_v1_iff next_cell_def)
  from a have "snake s \<noteq> []" by simp
  from update_v1_collision [OF this c]
  show "\<exists>s'. update_v1 s = Ret s' \<and> game_over s' \<and> snake s' = snake s \<and> food s' = food s
         \<and> score s' = score s"
    by simp
next
  assume a: "game_over s \<and> (\<forall>evs \<in> set batches. KEYDOWN K_r \<notin> set evs)"
  then have g: "game_over s" and b: "\<forall>evs \<in> set batches. KEYDOWN K_r \<notin> set evs"
    by simp_all
  from main_loop_v1_game_over [OF g b] obtain s'
    where "main_loop_v1 batches s = Ret s'" "same_world s s'" by blast
  with g show "\<exists>s'. main_loop_v1 batches s = Ret s' \<and> game_over s' \<and> snake s' = snake s
         \<and> food s' = food s \<and> score s' = score s"
    by (simp add: same_world_def)
next
  assume a: "snake t \<noteq> [] \<and> (\<not> in_grid (next_cell t) \<or> next_cell t \<in> set (snake t))"
  then have c: "collision_v11 (snake t) (new_head (commit_direction t))"
    by (simp add: collision_v11_iff next_cell_def)
  from a have "snake t \<noteq> []" by simp
  from update_v11_collision [OF this c]
  show "\<exists>t'. update_v11 fl t = Ret t' \<and> game_over t' \<and> snake t' = snake t \<and> food t' = food t
         \<and> score t' = score t"
    by simp
next
  assume a: "game_over t \<and> (\<forall>inp \<in> set inps. KEYDOWN K_r \<notin> set (events inp))"
  then have g: "game_over t" and b: "\<forall>inp \<in> set inps. KEYDOWN K_r \<notin> set (events inp)"
    by simp_all
  from main_loop_v11_game_over [OF g b]
  have nh: "main_loop_v11 fl inps t \<noteq> Hang"
    and w: "\<And>t'. main_loop_v11 fl inps t = Ret t' \<Longrightarrow> same_world t t'" by blast+
  show "main_loop_v11 fl inps t \<noteq> Hang
      \<and> (\<forall>t'. main_loop_v11 fl inps t = Ret t' \<longrightarrow>
            game_over t' \<and> snake t' = snake t \<and> food t' = food t \<and> score t' = score t)"
  proof (intro conjI allI impI)
    show "main_loop_v11 fl inps t \<noteq> Hang" by (rule nh)
  next
    fix t' assume "main_loop_v11 fl inps t = Ret t'"
    from w [OF this] g show "game_over t'" "snake t' = snake t" "food t' = food t" "score t' = score t"
      by (simp_all add: same_world_def)
  qed
qed

theorem collision_ends_game_and_freezes_witness:
  "(\<exists>s'. update_v1 tail_chase_v1 = Ret s' \<and> game_over s'
      \<and> snake s' = [(15, 15), (14, 15), (14, 14), (15, 14)] \<and> food s' = (3, 7) \<and> score s' = 1)
   \<and> (\<exists>s'. main_loop_v1 [[KEYDOWN K_UP], [], [KEYDOWN K_SPACE, KEYDOWN K_a]]
            (tail_chase_v1\<lparr>direction := (0, 1), game_over := True\<rparr>) = Ret s' \<and> game_over s'
      \<and> snake s' = [(15, 15), (14, 15), (14, 14), (15, 14)] \<and> food s' = (3, 7) \<and> score s' = 1)
   \<and> (\<exists>t'. update_v11 (\<lambda>x. x) tail_chase_v11 = Ret t' \<and> game_over t'
      \<and> snake t' = [(16, 15), (17, 15), (17, 14), (16, 14)] \<and> food t' = (3, 7) \<and> score t' = 2)
   \<and> (\<exists>t'. main_loop_v11 (\<lambda>x. x) [idle [KEYDOWN K_LEFT], idle []]
            (tail_chase_v11\<lparr>direction := (0, 1), game_over := True\<rparr>) = Ret t' \<and> game_over t'
      \<and> snake t' = [(16, 15), (17, 15), (17, 14), (16, 14)] \<and> food t' = (3, 7) \<and> score t' = 2)"
proof -
  let ?s = "tail_chase_v1\<lparr>direction := (0, 1), game_over := True\<rparr>"
  let ?t = "tail_chase_v11\<lparr>direction := (0, 1), game_over := True\<rparr>"
  let ?bs = "[[KEYDOWN K_UP], [], [KEYDOWN K_SPACE, KEYDOWN K_a]]"
  let ?is = "[idle [KEYDOWN K_LEFT], idle []]"
  have h1: "snake tail_chase_v1 \<noteq> [] \<and> (\<not> in_grid (next_cell tail_chase_v1)
      \<or> next_cell tail_chase_v1 \<in> set (snake tail_chase_v1))"
    by (simp add: tail_chase_v1_def next_cell_def new_head_def commit_direction_def)
  have h2: "snake tail_chase_v11 \<noteq> [] \<and> (\<not> in_grid (next_cell tail_chase_v11)
      \<or> next_cell tail_chase_v11 \<in> set (snake tail_chase_v11))"
    by (simp add: tail_chase_v11_def next_cell_def new_head_def commit_direction_def)
  have h3: "game_over ?s \<and> (\<forall>evs \<in> set ?bs. KEYDOWN K_r \<notin> set evs)" by simp
  have h4: "game_over ?t \<and> (\<forall>inp \<in> set ?is. KEYDOWN K_r \<notin> set (events inp))"
    by (simp add: idle_def)
  have f1: "snake tail_chase_v1 = [(15, 15), (14, 15), (14, 14), (15, 14)]"
    "food tail_chase_v1 = (3, 7)" "score tail_chase_v1 = 1"
    by (simp_all add: tail_chase_v1_def)
  have f2: "snake tail_chase_v11 = [(16, 15), (17, 15), (17, 14), (16, 14)]"
    "food tail_chase_v11 = (3, 7)" "score tail_chase_v11 = 2"
    by (simp_all add: tail_chase_v11_def)
  have run: "main_loop_v11 (\<lambda>x. x) ?is ?t = Ret (?t\<lparr>next_direction := (-1, 0)\<rparr>)"
    by (simp add: run_v11 tail_chase_v11_def)
  note a = collision_ends_game_and_freezes
    [where s = tail_chase_v1 and t = tail_chase_v11 and fl = "\<lambda>x. x"
       and batches = "[]" and inps = "[]"]
  note b = collision_ends_game_and_freezes
    [where s = ?s and t = ?t and fl = "\<lambda>x. x" and batches = ?bs and inps = ?is]
  from a have a1: "snake tail_chase_v1 \<noteq> [] \<and> (\<not> in_grid (next_cell tail_chase_v1)
        \<or> next_cell tail_chase_v1 \<in> set (snake tail_chase_v1)) \<longrightarrow>
      (\<exists>s'. update_v1 tail_chase_v1 = Ret s' \<and> game_over s' \<and> snake s' = snake tail_chase_v1
         \<and> food s' = food tail_chase_v1 \<and> score s' = score tail_chase_v1)"
    and a3: "snake tail_chase_v11 \<noteq> [] \<and> (\<not> in_grid (next_cell tail_chase_v11)
        \<or> next_cell tail_chase_v11 \<in> set (snake tail_chase_v11)) \<longrightarrow>
      (\<exists>t'. update_v11 (\<lambda>x. x) tail_chase_v11 = Ret t' \<and> game_over t'
         \<and> snake t' = snake tail_chase_v11 \<and> food t' = food tail_chase_v11
         \<and> score t' = score tail_chase_v11)"
    by (rule conjunct1, rule conjunct1 [OF conjunct2 [OF conjunct2]])
  from b have b2: "game_over ?s \<and> (\<forall>evs \<in> set ?bs. KEYDOWN K_r \<notin> set evs) \<longrightarrow>
      (\<exists>s'. main_loop_v1 ?bs ?s = Ret s' \<and> game_over s' \<and> snake s' = snake ?s
         \<and> food s' = food ?s \<and> score s' = score ?s)"
    and b4: "game_over ?t \<and> (\<forall>inp \<in> set ?is. KEYDOWN K_r \<notin> set (events inp)) \<longrightarrow>
      main_loop_v11 (\<lambda>x. x) ?is ?t \<noteq> Hang
      \<and> (\<forall>t'. main_loop_v11 (\<lambda>x. x) ?is ?t = Ret t' \<longrightarrow>
            game_over t' \<and> snake t' = snake ?t \<and> food t' = food ?t \<and> score t' = score ?t)"
    by (rule conjunct1 [OF conjunct2], rule conjunct2 [OF conjunct2 [OF conjunct2]])
  from a1 h1 have A: "\<exists>s'. update_v1 tail_chase_v1 = Ret s' \<and> game_over s'
      \<and> snake s' = snake tail_chase_v1 \<and> food s' = food tail_chase_v1
      \<and> score s' = score tail_chase_v1"
    by (rule mp)
  from a3 h2 have C: "\<exists>t'. update_v11 (\<lambda>x. x) tail_chase_v11 = Ret t' \<and> game_over t'
      \<and> snake t' = snake tail_chase_v11 \<and> food t' = food tail_chase_v11
      \<and> score t' = score tail_chase_v11"
    by (rule mp)
  from b2 h3 have B: "\<exists>s'. main_loop_v1 ?bs ?s = Ret s' \<and> game_over s'
      \<and> snake s' = snake ?s \<and> food s' = food ?s \<and> score s' = score ?s"
    by (rule mp)
  from b4 h4 have "main_loop_v11 (\<lambda>x. x) ?is ?t \<noteq> Hang
      \<and> (\<forall>t'. main_loop_v11 (\<lambda>x. x) ?is ?t = Ret t' \<longrightarrow>
            game_over t' \<and> snake t' = snake ?t \<and> food t' = food ?t \<and> score t' = score ?t)"
    by (rule mp)
  with run have D: "\<exists>t'. main_loop_v11 (\<lambda>x. x) ?is ?t = Ret t' \<and> game_over t'
      \<and> snake t' = snake ?t \<and> food t' = food ?t \<and> score t' = score ?t"
    by simp
  from A B C D show ?thesis by (simp add: f1 f2)
qed

subsection \<open>Restart\<close>

text \<open>
  Claim C6.  In game-over mode the \<^verbatim>\<open>K_r\<close> key replaces the variables by what game
  initialisation builds from the current random tape (the same snake, directions, score
  0, mode playing, food drawn anew outside the snake), keeping only \<^verbatim>\<open>running\<close>, or
  \<^verbatim>\<open>shake_time\<close> in the second file, and goes on with the rest of the batch.  In
  playing mode the key does nothing.  Initialisation returns as soon as the tape holds a
  draw outside the initial snake.
\<close>

theorem restart_rebuilds_initial_state:
  "(game_over s \<longrightarrow>
      handle_events_v1 (KEYDOWN K_r # es) s =
        obind (init_v1 (rand s)) (\<lambda>s0. handle_events_v1 es (s0\<lparr>running := running s\<rparr>)))
   \<and> (\<not> game_over s \<longrightarrow> handle_events_v1 (KEYDOWN K_r # es) s = handle_events_v1 es s)
   \<and> (init_v1 g = Ret s0 \<longrightarrow>
        snake s0 = [(17, 15), (16, 15), (15, 15)] \<and> direction s0 = (-1, 0)
        \<and> next_direction s0 = (-1, 0) \<and> score s0 = 0 \<and> \<not> game_over s0
        \<and> food s0 \<notin> set (snake s0) \<and> in_grid (food s0))
   \<and> ((\<exists>k. fst (draws k g) \<notin> set initial_snake_v1) \<longrightarrow> (\<exists>s0. init_v1 g = Ret s0))
   \<and> (game_over t \<longrightarrow>
      handle_events_v11 (KEYDOWN K_r # es) t =
        obind (init_v11 (rand t)) (\<lambda>t0. handle_events_v11 es (t0\<lparr>shake_time := shake_time t\<rparr>)))
   \<and> (\<not> game_over t \<longrightarrow> handle_events_v11 (KEYDOWN K_r # es) t = handle_events_v11 es t)
   \<and> (init_v11 g = Ret t0 \<longrightarrow>
        snake t0 = [(14, 15), (15, 15)] \<and> direction t0 = (1, 0)
        \<and> next_direction t0 = (1, 0) \<and> score t0 = 0 \<and> \<not> game_over t0
        \<and> food t0 \<notin> set (snake t0) \<and> in_grid (food t0))
   \<and> ((\<exists>k. fst (draws k g) \<notin> set initial_snake_v11) \<longrightarrow> (\<exists>t0. init_v11 g = Ret t0))"
proof (intro conjI; rule impI)
  assume "game_over s"
  then show "handle_events_v1 (KEYDOWN K_r # es) s =
        obind (init_v1 (rand s)) (\<lambda>s0. handle_events_v1 es (s0\<lparr>running := running s\<rparr>))"
    by (cases s) (simp add: init_v1_def Let_def split: option.splits)
next
  assume "\<not> game_over s"
  then show "handle_events_v1 (KEYDOWN K_r # es) s = handle_events_v1 es s" by simp
next
  assume "init_v1 g = Ret s0"
  then show "snake s0 = [(17, 15), (16, 15), (15, 15)] \<and> direction s0 = (-1, 0)
        \<and> next_direction s0 = (-1, 0) \<and> score s0 = 0 \<and> \<not> game_over s0
        \<and> food s0 \<notin> set (snake s0) \<and> in_grid (food s0)"
    by (auto simp: init_v1_def initial_snake_v1_eq split: option.splits
        dest!: random_food_position_free)
next
  assume "\<exists>k. fst (draws k g) \<notin> set initial_snake_v1"
  then obtain r where "random_food_position initial_snake_v1 g = Some r"
    using random_food_position_returns by blast
  then show "\<exists>s0. init_v1 g = Ret s0" by (cases r) (simp add: init_v1_def)
next
  assume "game_over t"
  then show "handle_events_v11 (KEYDOWN K_r # es) t =
        obind (init_v11 (rand t)) (\<lambda>t0. handle_events_v11 es (t0\<lparr>shake_time := shake_time t\<rparr>))"
    by (cases t) (simp add: init_v11_def Let_def split: option.splits)
next
  assume "\<not> game_over t"
  then show "handle_events_v11 (KEYDOWN K_r # es) t = handle_events_v11 es t" by simp
next
  assume "init_v11 g = Ret t0"
  then show "snake t0 = [(14, 15), (15, 15)] \<and> direction t0 = (1, 0)
        \<and> next_direction t0 = (1, 0) \<and> score t0 = 0 \<and> \<not> game_over t0
        \<and> food t0 \<notin> set (snake t0) \<and> in_grid (food t0)"
    by (auto simp: init_v11_def initial_snake_v11_eq random_food_eq split: option.splits
        dest!: random_food_position_free)
next
  assume "\<exists>k. fst (draws k g) \<notin> set initial_snake_v11"
  then obtain r where "random_food_position initial_snake_v11 g = Some r"
    using random_food_position_returns by blast
  then show "\<exists>t0. init_v11 g = Ret t0" by (cases r) (simp add: init_v11_def random_food_eq)
qed

theorem restart_rebuilds_initial_state_witness:
  "handle_events_v1 [KEYDOWN K_r] (tail_chase_v1\<lparr>direction := (0, 1), game_over := True\<rparr>)
     = Ret \<lparr>snake = [(17, 15), (16, 15), (15, 15)], direction = (-1, 0), next_direction = (-1, 0),
            food = (14, 15), score = 0, game_over = False, rand = cycle [3, 7, 14, 15],
            running = True\<rparr>
   \<and> handle_events_v1 [KEYDOWN K_r] tail_chase_v1 = Ret tail_chase_v1
   \<and> handle_events_v11 [KEYDOWN K_r] (tail_chase_v11\<lparr>direction := (0, 1), game_over := True\<rparr>)
     = Ret \<lparr>snake = [(14, 15), (15, 15)], direction = (1, 0), next_direction = (1, 0),
            food = (16, 15), score = 0, game_over = False, rand = cycle [17, 15, 3, 7, 16, 15],
            shake_time = 0\<rparr>
   \<and> handle_events_v11 [KEYDOWN K_r] tail_chase_v11 = Ret tail_chase_v11"
proof -
  let ?s = "tail_chase_v1\<lparr>direction := (0, 1), game_over := True\<rparr>"
  let ?t = "tail_chase_v11\<lparr>direction := (0, 1), game_over := True\<rparr>"
  have g: "game_over ?s" "game_over ?t" "\<not> game_over tail_chase_v1" "\<not> game_over tail_chase_v11"
    by (simp_all add: tail_chase_v1_def tail_chase_v11_def)
  have i1: "init_v1 (rand ?s) = Ret \<lparr>snake = [(17, 15), (16, 15), (15, 15)], direction = (-1, 0),
      next_direction = (-1, 0), food = (14, 15), score = 0, game_over = False,
      rand = cycle [3, 7, 14, 15], running = True\<rparr>"
    by (simp add: run_v1 tail_chase_v1_def)
  have i2: "init_v11 (rand ?t) = Ret \<lparr>snake = [(14, 15), (15, 15)], direction = (1, 0),
      next_direction = (1, 0), food = (16, 15), score = 0, game_over = False,
      rand = cycle [17, 15, 3, 7, 16, 15], shake_time = 0\<rparr>"
    by (simp add: run_v11 tail_chase_v11_def)
  have r: "running ?s = True" "shake_time ?t = 0"
    by (simp_all add: tail_chase_v1_def tail_chase_v11_def)
  from restart_rebuilds_initial_state [where s = ?s and t = ?t and es = "[]"] g(1,2)
  have "handle_events_v1 [KEYDOWN K_r] ?s =
        obind (init_v1 (rand ?s)) (\<lambda>s0. handle_events_v1 [] (s0\<lparr>running := running ?s\<rparr>))"
    and "handle_events_v11 [KEYDOWN K_r] ?t =
        obind (init_v11 (rand ?t)) (\<lambda>t0. handle_events_v11 [] (t0\<lparr>shake_time := shake_time ?t\<rparr>))"
    by blast+
  then have A: "handle_events_v1 [KEYDOWN K_r] ?s = Ret \<lparr>snake = [(17, 15), (16, 15), (15, 15)],
      direction = (-1, 0), next_direction = (-1, 0), food = (14, 15), score = 0,
      game_over = False, rand = cycle [3, 7, 14, 15], running = True\<rparr>"
    and B: "handle_events_v11 [KEYDOWN K_r] ?t = Ret \<lparr>snake = [(14, 15), (15, 15)],
      direction = (1, 0), next_direction = (1, 0), food = (16, 15), score = 0,
      game_over = False, rand = cycle [17, 15, 3, 7, 16, 15], shake_time = 0\<rparr>"
    unfolding i1 i2 r by simp_all
  from restart_rebuilds_initial_state [where s = tail_chase_v1 and t = tail_chase_v11 and es = "[]"] g(3,4)
  have C: "handle_events_v1 [KEYDOWN K_r] tail_chase_v1 = Ret tail_chase_v1"
    and D: "handle_events_v11 [KEYDOWN K_r] tail_chase_v11 = Ret tail_chase_v11"
    by simp_all
  from A B C D show ?thesis by simp
qed

subsection \<open>The pending direction after a batch of events\<close>

lemma last_direction_v1:
  "QUIT \<notin> set evs \<Longrightarrow> KEYDOWN K_ESCAPE \<notin> set evs \<Longrightarrow>
   (game_over s \<longrightarrow> KEYDOWN K_r \<notin> set evs) \<Longrightarrow>
   handle_events_v1 evs s =
     Ret (s\<lparr>next_direction := last (next_direction s # directional_keys evs)\<rparr>)"
proof (induction evs arbitrary: s)
  case Nil
  then show ?case by simp
next
  case (Cons e es)
  show ?case
  proof (cases e)
    case QUIT
    with Cons.prems show ?thesis by simp
  next
    case OTHER
    with Cons show ?thesis by simp
  next
    case (KEYDOWN k)
    with Cons show ?thesis by (cases k) simp_all
  qed
qed

lemma last_direction_v11:
  "QUIT \<notin> set evs \<Longrightarrow> KEYDOWN K_ESCAPE \<notin> set evs \<Longrightarrow>
   (game_over s \<longrightarrow> KEYDOWN K_r \<notin> set evs) \<Longrightarrow>
   handle_events_v11 evs s =
     Ret (s\<lparr>next_direction :=
            last (next_direction s # filter (\<lambda>v. direction s \<noteq> opposite v) (directional_keys evs))\<rparr>)"
proof (induction evs arbitrary: s)
  case Nil
  then show ?case by simp
next
  case (Cons e es)
  show ?case
  proof (cases e)
    case QUIT
    with Cons.prems show ?thesis by simp
  next
    case OTHER
    with Cons show ?thesis by simp
  next
    case (KEYDOWN k)
    with Cons show ?thesis by (cases k) (simp_all add: opposite_def)
  qed
qed

text \<open>
  Claim C8, as amended.  For a batch without quit event and without Escape, and without
  \<^verbatim>\<open>K_r\<close> key when the game is over: in \<^verbatim>\<open>super_snake.py\<close> the pending direction after
  the batch is the vector of the last direction key of the batch, whatever the committed
  direction; in \<^verbatim>\<open>super_snake_V1.1.py\<close> it is the vector of the last direction key that is
  not the opposite of the committed direction.  In both it stays as it was when there is
  no such key.
\<close>

theorem pending_direction_after_batch:
  "(QUIT \<notin> set evs \<and> KEYDOWN K_ESCAPE \<notin> set evs \<and> (game_over s \<longrightarrow> KEYDOWN K_r \<notin> set evs) \<longrightarrow>
      handle_events_v1 evs s =
        Ret (s\<lparr>next_direction := last (next_direction s # directional_keys evs)\<rparr>))
   \<and> (QUIT \<notin> set evs \<and> KEYDOWN K_ESCAPE \<notin> set evs \<and> (game_over t \<longrightarrow> KEYDOWN K_r \<notin> set evs) \<longrightarrow>
      handle_events_v11 evs t =
        Ret (t\<lparr>next_direction :=
               last (next_direction t
                     # filter (\<lambda>v. direction t \<noteq> opposite v) (directional_keys evs))\<rparr>))"
  by (simp add: last_direction_v1 last_direction_v11)

theorem pending_direction_after_batch_witness:
  "handle_events_v1 [KEYDOWN K_LEFT, OTHER, KEYDOWN K_UP, KEYDOWN K_SPACE] tail_chase_v1
     = Ret (tail_chase_v1\<lparr>next_direction := (0, -1)\<rparr>)
   \<and> handle_events_v11 [KEYDOWN K_LEFT, OTHER, KEYDOWN K_UP, KEYDOWN K_SPACE] moving_down_v11
     = Ret (moving_down_v11\<lparr>next_direction := (-1, 0)\<rparr>)"
proof -
  let ?evs = "[KEYDOWN K_LEFT, OTHER, KEYDOWN K_UP, KEYDOWN K_SPACE]"
  have h: "QUIT \<notin> set ?evs \<and> KEYDOWN K_ESCAPE \<notin> set ?evs
      \<and> (game_over tail_chase_v1 \<longrightarrow> KEYDOWN K_r \<notin> set ?evs)"
    "QUIT \<notin> set ?evs \<and> KEYDOWN K_ESCAPE \<notin> set ?evs
      \<and> (game_over moving_down_v11 \<longrightarrow> KEYDOWN K_r \<notin> set ?evs)"
    by simp_all
  have d: "directional_keys ?evs = [(-1, 0), (0, -1)]" by simp
  have e: "direction moving_down_v11 = (0, 1)" by (simp add: moving_down_v11_def)
  from pending_direction_after_batch [of ?evs tail_chase_v1 moving_down_v11] h
  show ?thesis by (simp add: d e opposite_def)
qed

text \<open>
  Claim C8 as stated says that the last direction key of the batch alone determines the
  pending direction, regardless of the committed direction.  In \<^verbatim>\<open>super_snake_V1.1.py\<close>
  the batch Left, Up gives Left while the snake moves down (the later key Up is
  ignored and the earlier key stands), and gives Up while it moves right.
\<close>

theorem pending_direction_counterexample:
  "play_v11 (\<lambda>x. x) (cycle [16, 15, 17, 15, 3, 7]) [idle [KEYDOWN K_DOWN]] = Ret moving_down_v11
   \<and> directional_keys [KEYDOWN K_LEFT, KEYDOWN K_UP] = [(-1, 0), (0, -1)]
   \<and> handle_events_v11 [KEYDOWN K_LEFT, KEYDOWN K_UP] moving_down_v11
       = Ret (moving_down_v11\<lparr>next_direction := (-1, 0)\<rparr>)
   \<and> handle_events_v11 [KEYDOWN K_UP] moving_down_v11 = Ret moving_down_v11
   \<and> direction plain_move_v11 = (1, 0)
   \<and> handle_events_v11 [KEYDOWN K_LEFT, KEYDOWN K_UP] plain_move_v11
       = Ret (plain_move_v11\<lparr>next_direction := (0, -1)\<rparr>)"
  by (simp add: run_v11 moving_down_v11_def plain_move_v11_def)

subsection \<open>The screen shake\<close>

lemma float_roundingD: "float_rounding fl \<Longrightarrow> \<bar>x\<bar> \<le> 100 \<Longrightarrow> \<bar>fl x - x\<bar> \<le> (\<bar>x\<bar> + 1) / 1000"
  by (simp add: float_rounding_def)

lemma py_int_bound: "\<bar>x\<bar> < 13 \<Longrightarrow> \<bar>py_int x\<bar> \<le> 12"
  by (auto simp: py_int_def abs_if) linarith+

lemma shake_duration_nonzero:
  assumes "float_rounding fl"
  shows "SHAKE_DURATION fl \<noteq> 0"
proof -
  from float_roundingD [OF assms, of "3 / 10"] have "\<bar>fl (3 / 10) - 3 / 10\<bar> \<le> 13 / 10000"
    by simp
  then show ?thesis by (auto simp: SHAKE_DURATION_def)
qed

lemma amp_bound:
  assumes "float_rounding fl"
  shows "\<bar>fl (real_of_int SHAKE_INTENSITY * fl (12 / 100))\<bar> \<le> 1213 / 100"
proof -
  let ?c = "fl (12 / 100)"
  from float_roundingD [OF assms, of "12 / 100"] have c: "\<bar>?c - 12 / 100\<bar> \<le> 112 / 100000"
    by simp
  then have p: "\<bar>100 * ?c\<bar> \<le> 12112 / 1000" by argo
  then have "\<bar>100 * ?c\<bar> \<le> 100" by argo
  from float_roundingD [OF assms this] p
  have "\<bar>fl (100 * ?c)\<bar> \<le> 1213 / 100" by argo
  then show ?thesis by (simp add: SHAKE_INTENSITY_def)
qed

lemma random_unit_range: "0 \<le> fst (random_unit g) \<and> fst (random_unit g) < 1"
  by (simp add: random_unit_def)

lemma random_unit_rest [simp]: "snd (random_unit g) = stl g"
  by (simp add: random_unit_def)

lemma uniform_rest [simp]: "snd (uniform fl a b g) = stl g"
  by (simp add: uniform_def random_unit_def)

lemma uniform_up_bound:
  assumes fl: "float_rounding fl"
  shows "\<bar>fst (uniform fl (- 1) 1 g)\<bar> \<le> 102 / 100"
proof -
  let ?r = "fst (random_unit g)"
  let ?c = "fl (1 - (- 1))"
  from random_unit_range [of g] have r: "0 \<le> ?r" "?r \<le> 1" by simp_all
  from float_roundingD [OF fl, of "1 - (- 1)"] have c: "1997 / 1000 \<le> ?c" "?c \<le> 2003 / 1000"
    by (simp_all add: abs_le_iff) argo+
  from c have "0 \<le> ?c" by argo
  with r have lo: "0 \<le> ?c * ?r" by (intro mult_nonneg_nonneg)
  from c have "0 \<le> ?c" by argo
  with r have "?c * ?r \<le> ?c * 1" by (intro mult_left_mono)
  then have "?c * ?r \<le> ?c" by (simp only: mult_1_right)
  with c have hi: "?c * ?r \<le> 2003 / 1000" by argo
  from lo hi have "\<bar>?c * ?r\<bar> \<le> 100" by argo
  from float_roundingD [OF fl this] lo hi
  have d: "- 1 / 100 \<le> fl (?c * ?r)" "fl (?c * ?r) \<le> 201 / 100" by argo+
  then have "\<bar>- 1 + fl (?c * ?r)\<bar> \<le> 100" by argo
  from float_roundingD [OF fl this] d
  have "\<bar>fl (- 1 + fl (?c * ?r))\<bar> \<le> 102 / 100" by argo
  then show ?thesis by (simp add: uniform_def split_def)
qed

lemma uniform_down_bound:
  assumes fl: "float_rounding fl"
  shows "\<bar>fst (uniform fl 1 (- 1) g)\<bar> \<le> 102 / 100"
proof -
  let ?r = "fst (random_unit g)"
  let ?c = "fl (- 1 - 1)"
  from random_unit_range [of g] have r: "0 \<le> ?r" "?r \<le> 1" by simp_all
  from float_roundingD [OF fl, of "- 1 - 1"] have c: "- 2003 / 1000 \<le> ?c" "?c \<le> - 1997 / 1000"
    by (simp_all add: abs_le_iff) argo+
  from c have "?c \<le> 0" by argo
  with r have hi: "?c * ?r \<le> 0" by (intro mult_nonpos_nonneg)
  from c have "?c \<le> 0" by argo
  with r have "?c * 1 \<le> ?c * ?r" by (intro mult_left_mono_neg)
  then have "?c \<le> ?c * ?r" by (simp only: mult_1_right)
  with c have lo: "- 2003 / 1000 \<le> ?c * ?r" by argo
  from lo hi have "\<bar>?c * ?r\<bar> \<le> 100" by argo
  from float_roundingD [OF fl this] lo hi
  have d: "- 201 / 100 \<le> fl (?c * ?r)" "fl (?c * ?r) \<le> 1 / 100" by argo+
  then have "\<bar>1 + fl (?c * ?r)\<bar> \<le> 100" by argo
  from float_roundingD [OF fl this] d
  have "\<bar>fl (1 + fl (?c * ?r))\<bar> \<le> 102 / 100" by argo
  then show ?thesis by (simp add: uniform_def split_def)
qed

lemma offset_bound:
  assumes fl: "float_rounding fl" and u: "\<bar>u\<bar> \<le> 102 / 100" and a: "\<bar>amp\<bar> \<le> 1213 / 100"
  shows "\<bar>py_int (fl (u * amp))\<bar> \<le> 12"
proof -
  have "\<bar>u * amp\<bar> = \<bar>u\<bar> * \<bar>amp\<bar>" by (rule abs_mult)
  also have "\<dots> \<le> (102 / 100) * (1213 / 100)" using u a by (intro mult_mono) simp_all
  finally have p: "\<bar>u * amp\<bar> \<le> 1238 / 100" by simp
  then have "\<bar>u * amp\<bar> \<le> 100" by argo
  from float_roundingD [OF fl this] p have "\<bar>fl (u * amp)\<bar> < 13" by argo
  then show ?thesis by (rule py_int_bound)
qed

lemma shake_offset_positive:
  assumes "float_rounding fl" "0 < st"
  shows "\<exists>ox oy. shake_offset fl st g = Ret ((ox, oy), stl (stl g)) \<and> \<bar>ox\<bar> \<le> 12 \<and> \<bar>oy\<bar> \<le> 12"
  using assms shake_duration_nonzero [OF assms(1)]
    offset_bound [OF assms(1) uniform_up_bound [OF assms(1), of g] amp_bound [OF assms(1)]]
    offset_bound [OF assms(1) uniform_down_bound [OF assms(1), of "stl g"] amp_bound [OF assms(1)]]
  by (simp add: shake_offset_def Let_def split_def)

lemma shake_offset_zero: "st \<le> 0 \<Longrightarrow> shake_offset fl st g = Ret ((0, 0), g)"
  by (simp add: shake_offset_def)

lemma frame_v11_grid_logic:
  assumes "frame_v11 fl inp s = Ret (s', off)"
  shows "\<exists>s1 s2. handle_events_v11 (events inp) s = Ret s1
    \<and> (if \<not> game_over s1 then update_v11 fl s1 else Ret s1) = Ret s2
    \<and> snake s' = snake s2 \<and> food s' = food s2 \<and> score s' = score s2
    \<and> direction s' = direction s2 \<and> next_direction s' = next_direction s2
    \<and> game_over s' = game_over s2
    \<and> shake_offset fl (shake_time s') (rand s2) = Ret (off, rand s')"
proof -
  from frame_v11_RetD [OF assms] obtain s1 s2 g
    where "handle_events_v11 (events inp) s = Ret s1"
    and "(if \<not> game_over s1 then update_v11 fl s1 else Ret s1) = Ret s2"
    and "shake_offset fl (shake_time (decay_shake fl (fl (real_of_int (tick_ms inp) / 1000)) s2))
          (rand s2) = Ret (off, g)"
    and "s' = (decay_shake fl (fl (real_of_int (tick_ms inp) / 1000)) s2)\<lparr>rand := g\<rparr>"
    by blast
  then show ?thesis by (intro exI [of _ s1] exI [of _ s2]) simp
qed

text \<open>
  Claim C10, as amended.  In \<^verbatim>\<open>super_snake_V1.1.py\<close>, while the remaining shake time is
  positive both offsets are integers of magnitude at most 12, whatever that time is, and
  computing them leaves the random generator two numbers further; when the remaining
  shake time is not positive both offsets are 0 and the generator is left as it is.  The
  offsets of a frame are computed last, from the shake time left after the decay: the
  snake, the food, the score, the two directions and the mode after the frame are those
  that the event loop and the tick of the frame have computed, and the offsets are not
  stored.  What the shake leaves behind for later frames is the advance of the
  generator, which food placement reads.
\<close>

theorem shake_offsets_bounded:
  "(float_rounding fl \<and> 0 < st \<longrightarrow>
      (\<exists>ox oy. shake_offset fl st g = Ret ((ox, oy), stl (stl g)) \<and> \<bar>ox\<bar> \<le> 12 \<and> \<bar>oy\<bar> \<le> 12))
   \<and> (st \<le> 0 \<longrightarrow> shake_offset fl st g = Ret ((0, 0), g))
   \<and> (frame_v11 fl inp s = Ret (s', off) \<longrightarrow>
        (\<exists>s1 s2. handle_events_v11 (events inp) s = Ret s1
           \<and> (if \<not> game_over s1 then update_v11 fl s1 else Ret s1) = Ret s2
           \<and> snake s' = snake s2 \<and> food s' = food s2 \<and> score s' = score s2
           \<and> direction s' = direction s2 \<and> next_direction s' = next_direction s2
           \<and> game_over s' = game_over s2
           \<and> shake_offset fl (shake_time s') (rand s2) = Ret (off, rand s')))"
proof (intro conjI; rule impI)
  assume "float_rounding fl \<and> 0 < st"
  then have "float_rounding fl" "0 < st" by simp_all
  then show "\<exists>ox oy. shake_offset fl st g = Ret ((ox, oy), stl (stl g)) \<and> \<bar>ox\<bar> \<le> 12 \<and> \<bar>oy\<bar> \<le> 12"
    by (rule shake_offset_positive)
next
  assume "st \<le> 0"
  then show "shake_offset fl st g = Ret ((0, 0), g)" by (rule shake_offset_zero)
next
  assume "frame_v11 fl inp s = Ret (s', off)"
  then show "\<exists>s1 s2. handle_events_v11 (events inp) s = Ret s1
           \<and> (if \<not> game_over s1 then update_v11 fl s1 else Ret s1) = Ret s2
           \<and> snake s' = snake s2 \<and> food s' = food s2 \<and> score s' = score s2
           \<and> direction s' = direction s2 \<and> next_direction s' = next_direction s2
           \<and> game_over s' = game_over s2
           \<and> shake_offset fl (shake_time s') (rand s2) = Ret (off, rand s')"
    by (rule frame_v11_grid_logic)
qed

theorem shake_offsets_bounded_witness:
  "float_rounding (\<lambda>x. x)
   \<and> shake_offset (\<lambda>x. x) (1 / 5) (cycle [0, 4503599627370496])
       = Ret ((- 12, 0), cycle [0, 4503599627370496])
   \<and> shake_offset (\<lambda>x. x) 0 (cycle [0, 4503599627370496])
       = Ret ((0, 0), cycle [0, 4503599627370496])"
proof -
  have fr: "float_rounding (\<lambda>x. x)" by (simp add: float_rounding_def)
  have ev: "shake_offset (\<lambda>x. x) (1 / 5) (cycle [0, 4503599627370496])
       = Ret ((- 12, 0), cycle [0, 4503599627370496])"
    by (simp add: shake_offset_def SHAKE_DURATION_def SHAKE_INTENSITY_def py_int_def
        uniform_def random_unit_def)
  note inst = shake_offsets_bounded [where fl = "\<lambda>x. x" and g = "cycle [0, 4503599627370496]"]
  from inst [where st = "1 / 5"] fr
  have "\<exists>ox oy. shake_offset (\<lambda>x. x) (1 / 5) (cycle [0, 4503599627370496])
        = Ret ((ox, oy), stl (stl (cycle [0, 4503599627370496]))) \<and> \<bar>ox\<bar> \<le> 12 \<and> \<bar>oy\<bar> \<le> 12"
    by simp
  moreover from inst [where st = 0]
  have "shake_offset (\<lambda>x. x) 0 (cycle [0, 4503599627370496])
       = Ret ((0, 0), cycle [0, 4503599627370496])" by simp
  ultimately show ?thesis using fr ev by simp
qed

text \<open>
  Claim C10 as stated says that the offsets never affect the food.  Two runs of
  \<^verbatim>\<open>super_snake_V1.1.py\<close> from the same random tape, with the same events, eat twice.
  With a second on the clock in each frame the shake is over before any offset is
  computed, and the second food is at \<open>(3, 7)\<close>.  With 100 ms on the clock the first frame
  computes offsets, which takes two numbers from the tape, and the second food is at
  \<open>(5, 9)\<close>.  The clock enters the loop through the shake time only.
\<close>

theorem shake_shifts_food_counterexample:
  "play_v11 (\<lambda>x. x) shake_tape [idle [], idle []]
     = Ret \<lparr>snake = [(14, 15), (15, 15), (16, 15), (17, 15)], direction = (1, 0),
            next_direction = (1, 0), food = (3, 7), score = 2, game_over = False,
            rand = cycle [5, 9, 16, 15, 17, 15, 3, 7], shake_time = 0\<rparr>
   \<and> play_v11 (\<lambda>x. x) shake_tape [brisk [], brisk []]
     = Ret \<lparr>snake = [(14, 15), (15, 15), (16, 15), (17, 15)], direction = (1, 0),
            next_direction = (1, 0), food = (5, 9), score = 2, game_over = False,
            rand = cycle [17, 15, 3, 7, 5, 9, 16, 15], shake_time = 1 / 5\<rparr>"
  by (simp add: run_v11 shake_tape_def)

end
